theory Spec2Isabelle
  imports Main "HOL-Library.Multiset" "HOL-Library.Sublist" "HOL-Library.Char_ord"
    "HOL-Library.List_Lexorder"
begin

section \<open>Release asset synchronisation (src/asset.js)\<close>

text \<open>
  A shallow embedding of \<^verbatim>\<open>src/asset.js\<close>: discovery of the desired assets from glob
  descriptors (\<^verbatim>\<open>findAsset\<close>, \<^verbatim>\<open>normalizeAsset\<close>, \<^verbatim>\<open>findAssets\<close>), the diff against
  the release's existing assets (\<^verbatim>\<open>diffAssets\<close>), the concurrent upload and update
  operations (\<^verbatim>\<open>uploadAsset\<close>, \<^verbatim>\<open>deleteAsset\<close>, \<^verbatim>\<open>updateAsset\<close>), the analysis of the
  settled results (\<^verbatim>\<open>analyzeResults\<close>) and the entry point \<^verbatim>\<open>modifyReleaseAssets\<close>.

  JavaScript strings are \<open>string\<close>; an optional property (\<^verbatim>\<open>undefined\<close> when absent) is
  an \<open>option\<close>; a thrown \<^verbatim>\<open>Error\<close> or a rejected promise is the \<open>Inl\<close> of a sum; the
  injected and imported functions (\<^verbatim>\<open>@actions/glob\<close>, \<^verbatim>\<open>fs/promises\<close>, \<^verbatim>\<open>mime-types\<close>,
  \<^verbatim>\<open>path\<close>, the string built-ins, the GitHub client) are the fields of an environment
  record, so every theorem holds for whatever these functions compute.
\<close>

subsection \<open>Data\<close>

text \<open>One entry of \<^verbatim>\<open>config.assets\<close>: \<^verbatim>\<open>{path, name?, label?, optional}\<close>.\<close>

record asset_config =
  cfg_path :: string
  cfg_name :: "string option"
  cfg_label :: "string option"
  cfg_optional :: bool

text \<open>The argument of \<^verbatim>\<open>normalizeAsset\<close>: \<^verbatim>\<open>{path}\<close> or \<^verbatim>\<open>{label, name, path}\<close>.\<close>

record found_asset =
  found_label :: "string option"
  found_name :: "string option"
  found_path :: string

text \<open>A desired asset, as \<^verbatim>\<open>normalizeAsset\<close> returns it: \<^verbatim>\<open>{label, name, path}\<close>.\<close>

record asset =
  asset_label :: string
  asset_name :: string
  asset_path :: string

text \<open>The asset object of the GitHub API, the \<^verbatim>\<open>data\<close> of an upload response.\<close>

record api_response =
  resp_url :: string
  resp_browser_download_url :: string
  resp_id :: nat
  resp_node_id :: string
  resp_name :: string
  resp_label :: string
  resp_state :: string
  resp_content_type :: string
  resp_size :: nat
  resp_download_count :: nat
  resp_created_at :: string
  resp_updated_at :: string

text \<open>A release asset as \<^verbatim>\<open>normalizeApiAsset\<close> returns it, and as \<^verbatim>\<open>release.assets\<close> holds it.\<close>

record api_asset =
  apiUrl :: string
  downloadUrl :: string
  assetId :: nat
  nodeId :: string
  assetName :: string
  assetLabel :: string
  assetState :: string
  contentType :: string
  assetSize :: nat
  downloadCount :: nat
  createdAt :: string
  updatedAt :: string

record release =
  upload_url :: string
  release_assets :: "api_asset list"

text \<open>
  Errors. \<^verbatim>\<open>findAsset\<close> throws the first one (an \<^verbatim>\<open>Error\<close> whose message holds the
  pattern); the second stands for whatever \<^verbatim>\<open>readFile\<close>, \<^verbatim>\<open>request\<close> or
  \<^verbatim>\<open>repos.deleteReleaseAsset\<close> reject with.
\<close>

datatype err =
  MandatoryArtifactNotFound string
| CapabilityFailure string

text \<open>The argument of \<^verbatim>\<open>request\<close> in \<^verbatim>\<open>uploadAsset\<close>.\<close>

record upload_request =
  req_method :: string
  req_url :: string
  req_name :: string
  req_data :: string
  req_label :: string
  req_content_type :: "string option"

text \<open>
  What the code logs and which capabilities it calls, in order. A message is kept by its
  template and the values interpolated into it.
\<close>

datatype message =
  NoReleaseAssetsToModify
| ToUploadToUpdate nat nat
| DeletingExisting string nat
| Uploading string "string option"
| Uploaded string api_asset
| NoneFoundForOptional string
| FoundMultipleTimes string
| UploadSummary nat nat bool
| UpdateSummary nat nat bool
| EmptyLine

datatype event =
  Info message
| Warning message
| Error err
| GroupStart string
| GroupEnd
| Call_readFile string
| Call_request upload_request
| Call_deleteReleaseAsset nat

text \<open>
  The environment: the imported and injected functions. The file system is read through
  \<open>glob\<close> (the paths \<^verbatim>\<open>globber.globGenerator()\<close> yields for a pattern), \<open>isDirectory\<close>
  (\<^verbatim>\<open>(await stat(path)).isDirectory()\<close>) and \<open>readFile\<close>; matching and \<^verbatim>\<open>stat\<close> are
  taken to answer, \<open>readFile\<close> may reject. The remote release is a state \<open>'w\<close> that only
  \<open>request\<close> and \<open>deleteReleaseAsset\<close> change; each returns its answer (a rejection
  is an \<open>Inl\<close>) and the new state.
\<close>

record 'w env =
  glob :: "string \<Rightarrow> string list"
  isDirectory :: "string \<Rightarrow> bool"
  basename :: "string \<Rightarrow> string"
  toLowerCase :: "string \<Rightarrow> string"
  localeCompare :: "string \<Rightarrow> string \<Rightarrow> int"
  lookup :: "string \<Rightarrow> string option"
  readFile :: "string \<Rightarrow> err + string"
  request :: "upload_request \<Rightarrow> 'w \<Rightarrow> (err + api_response) \<times> 'w"
  deleteReleaseAsset :: "nat \<Rightarrow> 'w \<Rightarrow> (err + unit) \<times> 'w"

text \<open>The state a run threads: the remote release and the events so far.\<close>

record 'w state =
  world :: 'w
  events :: "event list"

definition emit :: "event \<Rightarrow> 'w state \<Rightarrow> 'w state" where
  "emit e s = s\<lparr>events := events s @ [e]\<rparr>"

definition info :: "message \<Rightarrow> 'w state \<Rightarrow> 'w state" where
  "info m = emit (Info m)"

definition warning :: "message \<Rightarrow> 'w state \<Rightarrow> 'w state" where
  "warning m = emit (Warning m)"

definition error :: "err \<Rightarrow> 'w state \<Rightarrow> 'w state" where
  "error e = emit (Error e)"

subsection \<open>Discovery: normalizeAsset, findAsset, findAssets\<close>

text \<open>
  \<^verbatim>\<open>const { label = "", path, name } = asset; return { label, name: name || basename(path), path }\<close>.
  The default of \<^verbatim>\<open>label\<close> applies to \<^verbatim>\<open>undefined\<close> only; \<^verbatim>\<open>||\<close> falls back on every
  falsy name, that is \<^verbatim>\<open>undefined\<close> and the empty string.
\<close>

definition normalizeAsset :: "'w env \<Rightarrow> found_asset \<Rightarrow> asset" where
  "normalizeAsset env a =
     \<lparr>asset_label = (case found_label a of None \<Rightarrow> '''' | Some l \<Rightarrow> l),
      asset_name = (case found_name a of
                      None \<Rightarrow> basename env (found_path a)
                    | Some n \<Rightarrow> if n = '''' then basename env (found_path a) else n),
      asset_path = found_path a\<rparr>"

text \<open>
  \<^verbatim>\<open>findAsset(info, asset)\<close>. The loop over the globber keeps the paths that are not
  directories, as \<^verbatim>\<open>{path}\<close> objects.
\<close>

definition findAsset :: "'w env \<Rightarrow> asset_config \<Rightarrow> 'w state \<Rightarrow> (err + asset list) \<times> 'w state" where
  "findAsset env a s =
     (let pattern = cfg_path a;
          isOptional = cfg_optional a;
          assets = map (\<lambda>p. \<lparr>found_label = None, found_name = None, found_path = p\<rparr>)
                     (filter (\<lambda>p. \<not> isDirectory env p) (glob env pattern))
      in if length assets < 1 then
           (if isOptional then (Inr [], info (NoneFoundForOptional pattern) s)
            else (Inl (MandatoryArtifactNotFound pattern), s))
         else if length assets > 1 then (Inr (map (normalizeAsset env) assets), s)
         else (Inr [normalizeAsset env
                      \<lparr>found_label = cfg_label a, found_name = cfg_name a,
                       found_path = found_path (hd assets)\<rparr>], s))"

text \<open>The first loop of \<^verbatim>\<open>findAssets\<close>: \<^verbatim>\<open>found.push(...(await findAsset(info, asset)))\<close>.\<close>

fun findAll :: "'w env \<Rightarrow> asset_config list \<Rightarrow> asset list \<Rightarrow> 'w state \<Rightarrow> (err + asset list) \<times> 'w state" where
  "findAll env [] found s = (Inr found, s)"
| "findAll env (a # rest) found s =
     (case findAsset env a s of
        (Inl e, s') \<Rightarrow> (Inl e, s')
      | (Inr xs, s') \<Rightarrow> findAll env rest (found @ xs) s')"

text \<open>
  The \<^verbatim>\<open>found.filter(...)\<close> of \<^verbatim>\<open>findAssets\<close>, with the set \<^verbatim>\<open>seen\<close> its callback closes
  over: an asset is kept when the lower-cased name is new, and dropped with a warning
  otherwise.
\<close>

fun dedupe :: "'w env \<Rightarrow> string set \<Rightarrow> asset list \<Rightarrow> 'w state \<Rightarrow> asset list \<times> 'w state" where
  "dedupe env seen [] s = ([], s)"
| "dedupe env seen (x # xs) s =
     (let lowercaseName = toLowerCase env (asset_name x)
      in if lowercaseName \<notin> seen then
           (case dedupe env (insert lowercaseName seen) xs s of (ys, s') \<Rightarrow> (x # ys, s'))
         else dedupe env seen xs (warning (FoundMultipleTimes (asset_name x)) s))"

definition findAssets :: "'w env \<Rightarrow> asset_config list \<Rightarrow> 'w state \<Rightarrow> (err + asset list) \<times> 'w state" where
  "findAssets env assets s =
     (case findAll env assets [] s of
        (Inl e, s') \<Rightarrow> (Inl e, s')
      | (Inr found, s') \<Rightarrow> (case dedupe env {} found s' of (kept, s'') \<Rightarrow> (Inr kept, s'')))"

subsection \<open>diffAssets\<close>

record diff =
  toUpdate :: "(api_asset \<times> asset) list"
  toUpload :: "asset list"

text \<open>
  The loop of \<^verbatim>\<open>diffAssets\<close>, with its two arrays as accumulators.
  \<^verbatim>\<open>existingAssets.find\<close> returns the first existing asset of the same name
  (\<^verbatim>\<open>===\<close> on strings), or \<^verbatim>\<open>undefined\<close>.
\<close>

fun diffLoop :: "api_asset list \<Rightarrow> asset list \<Rightarrow> diff \<Rightarrow> diff" where
  "diffLoop existingAssets [] acc = acc"
| "diffLoop existingAssets (desired # rest) acc =
     (case find (\<lambda>existing. assetName existing = asset_name desired) existingAssets of
        None \<Rightarrow> diffLoop existingAssets rest (acc\<lparr>toUpload := toUpload acc @ [desired]\<rparr>)
      | Some existing \<Rightarrow>
          diffLoop existingAssets rest (acc\<lparr>toUpdate := toUpdate acc @ [(existing, desired)]\<rparr>))"

definition diffAssets :: "api_asset list \<Rightarrow> asset list \<Rightarrow> diff" where
  "diffAssets existingAssets desiredAssets =
     diffLoop existingAssets desiredAssets \<lparr>toUpdate = [], toUpload = []\<rparr>"

subsection \<open>analyzeResults, compareApiAsset and the sort\<close>

text \<open>An element of the array \<^verbatim>\<open>Promise.allSettled\<close> resolves to.\<close>

datatype settled =
  Fulfilled api_asset
| Rejected err

record analysis =
  isSuccess :: bool
  successCount :: nat
  assets :: "api_asset list"
  failureCount :: nat
  failureReasons :: "err list"

fun analyzeLoop :: "settled list \<Rightarrow> analysis \<Rightarrow> analysis" where
  "analyzeLoop [] acc = acc"
| "analyzeLoop (Fulfilled v # rest) acc =
     analyzeLoop rest (acc\<lparr>successCount := successCount acc + 1, assets := assets acc @ [v]\<rparr>)"
| "analyzeLoop (Rejected reason # rest) acc =
     analyzeLoop rest (acc\<lparr>isSuccess := False, failureCount := failureCount acc + 1,
                           failureReasons := failureReasons acc @ [reason]\<rparr>)"

definition analyzeResults :: "settled list \<Rightarrow> analysis" where
  "analyzeResults results =
     analyzeLoop results
       \<lparr>isSuccess = True, successCount = 0, assets = [], failureCount = 0, failureReasons = []\<rparr>"

definition compareApiAsset :: "'w env \<Rightarrow> api_asset \<Rightarrow> api_asset \<Rightarrow> int" where
  "compareApiAsset env a b = localeCompare env (assetName a) (assetName b)"

text \<open>
  \<^verbatim>\<open>Array.prototype.sort(comparefn)\<close>. ECMAScript requires the sort to be stable, and
  fixes its result when the comparator is consistent; the model is the stable insertion
  sort, which puts \<open>x\<close> before the first \<open>y\<close> with \<open>comparefn x y \<le> 0\<close>.
\<close>

fun sortInsert :: "('a \<Rightarrow> 'a \<Rightarrow> int) \<Rightarrow> 'a \<Rightarrow> 'a list \<Rightarrow> 'a list" where
  "sortInsert comparefn x [] = [x]"
| "sortInsert comparefn x (y # ys) =
     (if comparefn x y \<le> 0 then x # y # ys else y # sortInsert comparefn x ys)"

definition arraySort :: "('a \<Rightarrow> 'a \<Rightarrow> int) \<Rightarrow> 'a list \<Rightarrow> 'a list" where
  "arraySort comparefn xs = foldr (sortInsert comparefn) xs []"

text \<open>
  \<^verbatim>\<open>logResults(info, error, result, messageTemplate)\<close>; \<open>summary\<close> is the template with
  the two counts, its flag says whether a colon follows.
\<close>

definition logResults :: "analysis \<Rightarrow> (nat \<Rightarrow> nat \<Rightarrow> bool \<Rightarrow> message) \<Rightarrow> 'w state \<Rightarrow> 'w state" where
  "logResults result summary s =
     (if failureCount result > 0 then
        info EmptyLine
          (foldl (\<lambda>s' reason. error reason s')
             (info (summary (successCount result) (failureCount result) True) s)
             (failureReasons result))
      else info (summary (successCount result) (failureCount result) False) s)"

text \<open>
  The end of \<^verbatim>\<open>modifyReleaseAssets\<close>, from the two arrays of settled results to the pair
  it returns: \<^verbatim>\<open>[isSuccess, sortedAssets]\<close>.
\<close>

definition aggregate :: "'w env \<Rightarrow> settled list \<Rightarrow> settled list \<Rightarrow> bool \<times> api_asset list" where
  "aggregate env uploadResults updateResults =
     (let uploadResult = analyzeResults uploadResults;
          updateResult = analyzeResults updateResults;
          isSuccess = (isSuccess uploadResult \<and> isSuccess updateResult);
          sortedAssets = arraySort (compareApiAsset env) (assets uploadResult @ assets updateResult)
      in (isSuccess, sortedAssets))"

subsection \<open>The operations: uploadAsset, deleteAsset, updateAsset\<close>

definition normalizeApiAsset :: "api_response \<Rightarrow> api_asset" where
  "normalizeApiAsset apiAsset =
     \<lparr>apiUrl = resp_url apiAsset,
      downloadUrl = resp_browser_download_url apiAsset,
      assetId = resp_id apiAsset,
      nodeId = resp_node_id apiAsset,
      assetName = resp_name apiAsset,
      assetLabel = resp_label apiAsset,
      assetState = resp_state apiAsset,
      contentType = resp_content_type apiAsset,
      assetSize = resp_size apiAsset,
      downloadCount = resp_download_count apiAsset,
      createdAt = resp_created_at apiAsset,
      updatedAt = resp_updated_at apiAsset\<rparr>"

text \<open>
  An \<^verbatim>\<open>async\<close> function runs until its next \<^verbatim>\<open>await\<close> and is resumed when the awaited
  call completes; meanwhile the other operations run. An operation in flight is therefore
  a task: the \<^verbatim>\<open>await\<close> it is suspended at, with the variables it needs afterwards, or
  its settled result. Each source function is cut at its \<^verbatim>\<open>await\<close>s: the function of the
  same name runs up to the first one, and one function per \<^verbatim>\<open>await\<close> continues from the
  result of the awaited call up to the next. A capability is recorded as called when the
  code calls it; it acts on the remote release when the task is resumed.
\<close>

datatype task =
  AwaitDelete api_asset asset
| AwaitReadFile asset
| AwaitRequest asset upload_request
| Settled settled

text \<open>\<^verbatim>\<open>uploadAsset(desired)\<close> up to \<^verbatim>\<open>await readFile(path)\<close>.\<close>

definition uploadAsset :: "asset \<Rightarrow> 'w state \<Rightarrow> task \<times> 'w state" where
  "uploadAsset desired s = (AwaitReadFile desired, emit (Call_readFile (asset_path desired)) s)"

text \<open>From the result of \<^verbatim>\<open>readFile\<close> up to \<^verbatim>\<open>await request({...})\<close>.\<close>

definition uploadAsset_afterReadFile ::
  "'w env \<Rightarrow> release \<Rightarrow> asset \<Rightarrow> err + string \<Rightarrow> 'w state \<Rightarrow> task \<times> 'w state" where
  "uploadAsset_afterReadFile env rel desired r s =
     (case r of
        Inl e \<Rightarrow> (Settled (Rejected e), s)
      | Inr bytes \<Rightarrow>
          (let ctype = lookup env (asset_path desired);
               req = \<lparr>req_method = ''POST'', req_url = upload_url rel,
                      req_name = asset_name desired, req_data = bytes,
                      req_label = asset_label desired, req_content_type = ctype\<rparr>
           in (AwaitRequest desired req,
               emit (Call_request req) (info (Uploading (asset_name desired) ctype) s))))"

text \<open>From the response of \<^verbatim>\<open>request\<close> to \<^verbatim>\<open>return normalized\<close>.\<close>

definition uploadAsset_afterRequest ::
  "asset \<Rightarrow> err + api_response \<Rightarrow> 'w state \<Rightarrow> task \<times> 'w state" where
  "uploadAsset_afterRequest desired r s =
     (case r of
        Inl e \<Rightarrow> (Settled (Rejected e), s)
      | Inr apiAsset \<Rightarrow>
          (let normalized = normalizeApiAsset apiAsset
           in (Settled (Fulfilled normalized), info (Uploaded (asset_name desired) normalized) s)))"

text \<open>\<^verbatim>\<open>deleteAsset(existing)\<close> up to \<^verbatim>\<open>await repos.deleteReleaseAsset({...})\<close>.\<close>

definition deleteAsset :: "api_asset \<Rightarrow> 'w state \<Rightarrow> 'w state" where
  "deleteAsset existing s =
     emit (Call_deleteReleaseAsset (assetId existing))
       (info (DeletingExisting (assetName existing) (assetId existing)) s)"

text \<open>\<^verbatim>\<open>updateAsset(existing, desired)\<close> up to \<^verbatim>\<open>await deleteAsset(existing)\<close>.\<close>

definition updateAsset :: "api_asset \<Rightarrow> asset \<Rightarrow> 'w state \<Rightarrow> task \<times> 'w state" where
  "updateAsset existing desired s = (AwaitDelete existing desired, deleteAsset existing s)"

text \<open>From the result of \<^verbatim>\<open>deleteAsset\<close> on: a rejection rejects, otherwise \<^verbatim>\<open>return uploadAsset(desired)\<close>.\<close>

definition updateAsset_afterDelete :: "asset \<Rightarrow> err + unit \<Rightarrow> 'w state \<Rightarrow> task \<times> 'w state" where
  "updateAsset_afterDelete desired r s =
     (case r of
        Inl e \<Rightarrow> (Settled (Rejected e), s)
      | Inr u \<Rightarrow> uploadAsset desired s)"

text \<open>
  Resuming a task: the awaited capability completes (acting on the remote release), and
  the operation continues to its next \<^verbatim>\<open>await\<close>. A settled task stays as it is.
\<close>

fun resume :: "'w env \<Rightarrow> release \<Rightarrow> task \<Rightarrow> 'w state \<Rightarrow> task \<times> 'w state" where
  "resume env rel (AwaitDelete existing desired) s =
     (case deleteReleaseAsset env (assetId existing) (world s) of
        (r, w') \<Rightarrow> updateAsset_afterDelete desired r (s\<lparr>world := w'\<rparr>))"
| "resume env rel (AwaitReadFile desired) s =
     uploadAsset_afterReadFile env rel desired (readFile env (asset_path desired)) s"
| "resume env rel (AwaitRequest desired req) s =
     (case request env req (world s) of
        (r, w') \<Rightarrow> uploadAsset_afterRequest desired r (s\<lparr>world := w'\<rparr>))"
| "resume env rel (Settled r) s = (Settled r, s)"

text \<open>\<^verbatim>\<open>array.map(f)\<close> for an \<^verbatim>\<open>async\<close> function \<open>f\<close>: starts one task per element, in order.\<close>

fun startAll :: "('a \<Rightarrow> 'w state \<Rightarrow> task \<times> 'w state) \<Rightarrow> 'a list \<Rightarrow> 'w state \<Rightarrow> task list \<times> 'w state" where
  "startAll f [] s = ([], s)"
| "startAll f (x # xs) s =
     (case f x s of (t, s') \<Rightarrow> (case startAll f xs s' of (ts, s'') \<Rightarrow> (t # ts, s'')))"

text \<open>
  The event loop: \<open>schedule\<close> lists, in order of completion, the tasks whose awaited call
  completes. Every task keeps its slot, as the promises of \<^verbatim>\<open>Promise.allSettled\<close> do.
\<close>

fun run :: "'w env \<Rightarrow> release \<Rightarrow> nat list \<Rightarrow> task list \<Rightarrow> 'w state \<Rightarrow> task list \<times> 'w state" where
  "run env rel [] ts s = (ts, s)"
| "run env rel (i # schedule) ts s =
     (if i < length ts then
        (case resume env rel (ts ! i) s of (t, s') \<Rightarrow> run env rel schedule (ts[i := t]) s')
      else run env rel schedule ts s)"

text \<open>
  \<^verbatim>\<open>Promise.allSettled(promises)\<close>: the results, slot by slot, once every promise has
  settled; \<open>None\<close> while one is pending.
\<close>

fun allSettled :: "task list \<Rightarrow> settled list option" where
  "allSettled [] = Some []"
| "allSettled (Settled r # ts) = (case allSettled ts of None \<Rightarrow> None | Some rs \<Rightarrow> Some (r # rs))"
| "allSettled (t # ts) = None"

subsection \<open>modifyReleaseAssets\<close>

record config =
  config_assets :: "asset_config list"

text \<open>
  The \<^verbatim>\<open>async\<close> function \<^verbatim>\<open>modifyReleaseAssets\<close> passes to \<^verbatim>\<open>group\<close>: the diff, the two
  batches of operations, started in order and run by the event loop, and, once
  \<^verbatim>\<open>Promise.all\<close> has both arrays of results, the two calls of \<^verbatim>\<open>logResults\<close> and the pair
  to return. The result is \<open>None\<close> when the schedule ends with an operation still pending
  (the promise has not settled), \<open>Some (Inl e)\<close> when it rejects with \<open>e\<close>, and
  \<open>Some (Inr (isSuccess, sortedAssets))\<close> when it resolves.
\<close>

definition modifyBody ::
  "'w env \<Rightarrow> release \<Rightarrow> asset list \<Rightarrow> nat list \<Rightarrow> 'w state \<Rightarrow>
     (err + bool \<times> api_asset list) option \<times> 'w state" where
  "modifyBody env rel desiredAssets schedule s =
     (let d = diffAssets (release_assets rel) desiredAssets;
          s1 = info (ToUploadToUpdate (length (toUpload d)) (length (toUpdate d))) s;
          (uploads, s2) = startAll uploadAsset (toUpload d) s1;
          (updates, s3) =
            startAll (\<lambda>(existing, desired). updateAsset existing desired) (toUpdate d) s2;
          (tasks, s4) = run env rel schedule (uploads @ updates) s3
      in case allSettled (take (length uploads) tasks) of
           None \<Rightarrow> (None, s4)
         | Some uploadResults \<Rightarrow>
             (case allSettled (drop (length uploads) tasks) of
                None \<Rightarrow> (None, s4)
              | Some updateResults \<Rightarrow>
                  (Some (Inr (aggregate env uploadResults updateResults)),
                   logResults (analyzeResults updateResults) UpdateSummary
                     (logResults (analyzeResults uploadResults) UploadSummary s4))))"

text \<open>
  The injected \<^verbatim>\<open>group(title, fn)\<close>, taken to be the one of \<^verbatim>\<open>@actions/core\<close>: it opens a
  log group, awaits \<^verbatim>\<open>fn()\<close>, closes the group and returns what \<^verbatim>\<open>fn\<close> returned.
\<close>

definition groupAsync ::
  "string \<Rightarrow> ('w state \<Rightarrow> 'a option \<times> 'w state) \<Rightarrow> 'w state \<Rightarrow> 'a option \<times> 'w state" where
  "groupAsync title fn s =
     (case fn (emit (GroupStart title) s) of
        (None, s') \<Rightarrow> (None, s')
      | (Some r, s') \<Rightarrow> (Some r, emit GroupEnd s'))"

text \<open>
  \<^verbatim>\<open>modifyReleaseAssets\<close>: an error thrown by \<^verbatim>\<open>findAssets\<close> rejects the call before
  anything else happens; without existing and desired assets the call returns at once.
\<close>

definition modifyReleaseAssets ::
  "'w env \<Rightarrow> config \<Rightarrow> release \<Rightarrow> nat list \<Rightarrow> 'w state \<Rightarrow>
     (err + bool \<times> api_asset list) option \<times> 'w state" where
  "modifyReleaseAssets env cfg rel schedule s =
     (let existingAssets = release_assets rel
      in case findAssets env (config_assets cfg) s of
           (Inl e, s1) \<Rightarrow> (Some (Inl e), s1)
         | (Inr desiredAssets, s1) \<Rightarrow>
             if length existingAssets < 1 \<and> length desiredAssets < 1 then
               (Some (Inr (True, [])), info NoReleaseAssetsToModify s1)
             else groupAsync ''Modifying release assets''
                    (modifyBody env rel desiredAssets schedule) s1)"

subsection \<open>Notions the statements use\<close>

text \<open>The paths a descriptor's pattern matches that are not directories.\<close>

definition matches :: "'w env \<Rightarrow> asset_config \<Rightarrow> string list" where
  "matches env a = filter (\<lambda>p. \<not> isDirectory env p) (glob env (cfg_path a))"

text \<open>The existing asset \<^verbatim>\<open>diffAssets\<close> finds for a desired one.\<close>

definition existingFor :: "api_asset list \<Rightarrow> asset \<Rightarrow> api_asset option" where
  "existingFor existingAssets desired =
     find (\<lambda>existing. assetName existing = asset_name desired) existingAssets"

definition isFulfilled :: "settled \<Rightarrow> bool" where
  "isFulfilled r = (case r of Fulfilled v \<Rightarrow> True | Rejected e \<Rightarrow> False)"

text \<open>
  The case-insensitive name of an asset, and the positions of a candidate list that hold
  the first occurrence of their case-insensitive name.
\<close>

definition lowerName :: "'w env \<Rightarrow> asset \<Rightarrow> string" where
  "lowerName env x = toLowerCase env (asset_name x)"

definition firstOccurrence :: "'w env \<Rightarrow> asset list \<Rightarrow> nat \<Rightarrow> bool" where
  "firstOccurrence env xs i = (lowerName env (xs ! i) \<notin> lowerName env ` set (take i xs))"

definition duplicateWarning :: "asset \<Rightarrow> event" where
  "duplicateWarning x = Warning (FoundMultipleTimes (asset_name x))"

text \<open>
  The tasks \<^verbatim>\<open>modifyReleaseAssets\<close> starts: the uploads, then the updates, as the two
  calls of \<^verbatim>\<open>map\<close> leave them.
\<close>

definition initialTasks :: "release \<Rightarrow> asset list \<Rightarrow> task list" where
  "initialTasks rel desiredAssets =
     map AwaitReadFile (toUpload (diffAssets (release_assets rel) desiredAssets)) @
     map (\<lambda>(existing, desired). AwaitDelete existing desired)
       (toUpdate (diffAssets (release_assets rel) desiredAssets))"







text \<open>
  An asset that is the normalised answer of an upload request, and the tasks that, when
  fulfilled, hold such an asset.
\<close>

definition uploadedBy :: "'w env \<Rightarrow> api_asset \<Rightarrow> bool" where
  "uploadedBy env v =
     (\<exists>req w apiAsset w'. request env req w = (Inr apiAsset, w') \<and> v = normalizeApiAsset apiAsset)"

fun fromUpload :: "'w env \<Rightarrow> task \<Rightarrow> bool" where
  "fromUpload env (Settled (Fulfilled v)) = uploadedBy env v"
| "fromUpload env t = True"


subsection \<open>A concrete environment\<close>

text \<open>
  The scenario of the specification: the files \<^verbatim>\<open>dist/a.txt\<close>, \<^verbatim>\<open>dist/b.1.json\<close> and
  \<^verbatim>\<open>dist/b.2.json\<close> beside a directory \<^verbatim>\<open>dist/sub\<close>, and a remote release that holds
  its assets with the next identifier to assign. It is the concrete input at which the
  theorems below are instantiated.
\<close>

definition demoGlob :: "string \<Rightarrow> string list" where
  "demoGlob pattern =
     (if pattern = ''dist/a.txt'' then [''dist/a.txt'']
      else if pattern = ''dist/A.TXT'' then [''dist/A.TXT'']
      else if pattern = ''dist/b.*.json'' then [''dist/b.1.json'', ''dist/b.2.json'']
      else if pattern = ''dist/*'' then [''dist/a.txt'', ''dist/b.1.json'', ''dist/b.2.json'', ''dist/sub'']
      else if pattern = ''dist/s*'' then [''dist/sub'']
      else [])"

definition asciiLower :: "char \<Rightarrow> char" where
  "asciiLower c =
     (if (65::nat) \<le> of_char c \<and> of_char c \<le> (90::nat)
      then Char (digit0 c) (digit1 c) (digit2 c) (digit3 c) (digit4 c) True (digit6 c) (digit7 c)
      else c)"

definition posixBasename :: "string \<Rightarrow> string" where
  "posixBasename p = rev (takeWhile (\<lambda>c. c \<noteq> CHR ''/'') (rev p))"

definition codeUnitCompare :: "string \<Rightarrow> string \<Rightarrow> int" where
  "codeUnitCompare a b = (if a < b then - 1 else if a = b then 0 else 1)"

definition demoLookup :: "string \<Rightarrow> string option" where
  "demoLookup p =
     (if suffix ''.txt'' p then Some ''text/plain''
      else if suffix ''.json'' p then Some ''application/json''
      else None)"

definition demoReadFile :: "string \<Rightarrow> err + string" where
  "demoReadFile p =
     (if p = ''dist/b.2.json'' then Inl (CapabilityFailure ''EACCES'') else Inr (''content of '' @ p))"

definition demoResponse :: "nat \<Rightarrow> string \<Rightarrow> string \<Rightarrow> api_response" where
  "demoResponse i n l =
     \<lparr>resp_url = ''api/'' @ n, resp_browser_download_url = ''download/'' @ n, resp_id = i,
      resp_node_id = ''node'', resp_name = n, resp_label = l, resp_state = ''uploaded'',
      resp_content_type = ''text/plain'', resp_size = 0, resp_download_count = 0,
      resp_created_at = ''today'', resp_updated_at = ''today''\<rparr>"

definition demoAsset :: "nat \<Rightarrow> string \<Rightarrow> api_asset" where
  "demoAsset i n = normalizeApiAsset (demoResponse i n [])"

definition demoRequest ::
  "upload_request \<Rightarrow> nat \<times> api_asset list \<Rightarrow> (err + api_response) \<times> (nat \<times> api_asset list)" where
  "demoRequest req w =
     (if req_name req \<in> set (map assetName (snd w)) then (Inl (CapabilityFailure ''already_exists''), w)
      else (Inr (demoResponse (fst w) (req_name req) (req_label req)),
            (Suc (fst w),
             snd w @ [normalizeApiAsset (demoResponse (fst w) (req_name req) (req_label req))])))"

definition demoDelete :: "nat \<Rightarrow> nat \<times> api_asset list \<Rightarrow> (err + unit) \<times> (nat \<times> api_asset list)" where
  "demoDelete i w =
     (if i \<in> set (map assetId (snd w)) then (Inr (), (fst w, filter (\<lambda>a. assetId a \<noteq> i) (snd w)))
      else (Inl (CapabilityFailure ''not_found''), w))"

definition demoEnv :: "(nat \<times> api_asset list) env" where
  "demoEnv =
     \<lparr>glob = demoGlob, isDirectory = (\<lambda>p. p = ''dist/sub''), basename = posixBasename,
      toLowerCase = map asciiLower, localeCompare = codeUnitCompare, lookup = demoLookup,
      readFile = demoReadFile, request = demoRequest, deleteReleaseAsset = demoDelete\<rparr>"

definition demoRelease :: release where
  "demoRelease = \<lparr>upload_url = ''uploads/1'', release_assets = [demoAsset 7 ''a.txt'']\<rparr>"

definition demoState :: "(nat \<times> api_asset list) state" where
  "demoState = \<lparr>world = (8, [demoAsset 7 ''a.txt'']), events = []\<rparr>"

definition desiredA :: asset where
  "desiredA = \<lparr>asset_label = [], asset_name = ''a.txt'', asset_path = ''dist/a.txt''\<rparr>"

definition desiredUpperA :: asset where
  "desiredUpperA = \<lparr>asset_label = [], asset_name = ''A.TXT'', asset_path = ''dist/A.TXT''\<rparr>"

definition desiredB1 :: asset where
  "desiredB1 = \<lparr>asset_label = [], asset_name = ''b.1.json'', asset_path = ''dist/b.1.json''\<rparr>"


definition optionalSub :: asset_config where
  "optionalSub = \<lparr>cfg_path = ''dist/s*'', cfg_name = None, cfg_label = None, cfg_optional = True\<rparr>"

definition mandatorySub :: asset_config where
  "mandatorySub = \<lparr>cfg_path = ''dist/s*'', cfg_name = None, cfg_label = None, cfg_optional = False\<rparr>"

definition mandatoryA :: asset_config where
  "mandatoryA = \<lparr>cfg_path = ''dist/a.txt'', cfg_name = None, cfg_label = None, cfg_optional = False\<rparr>"

definition mandatoryB :: asset_config where
  "mandatoryB = \<lparr>cfg_path = ''dist/b.*.json'', cfg_name = None, cfg_label = None, cfg_optional = False\<rparr>"

definition emptyNameA :: asset_config where
  "emptyNameA = \<lparr>cfg_path = ''dist/a.txt'', cfg_name = Some '''', cfg_label = None, cfg_optional = False\<rparr>"

definition emptyRelease :: release where
  "emptyRelease = \<lparr>upload_url = ''uploads/1'', release_assets = []\<rparr>"

text \<open>
  A second environment, whose remote release answers every call the same way whatever
  was called before, and counts the calls.
\<close>

definition fixedRequest :: "upload_request \<Rightarrow> nat \<Rightarrow> (err + api_response) \<times> nat" where
  "fixedRequest req w =
     (Inr (demoResponse (length (req_name req)) (req_name req) (req_label req)), Suc w)"

definition fixedDelete :: "nat \<Rightarrow> nat \<Rightarrow> (err + unit) \<times> nat" where
  "fixedDelete i w = (if i = 7 then Inr () else Inl (CapabilityFailure ''not_found''), Suc w)"

definition fixedEnv :: "nat env" where
  "fixedEnv =
     \<lparr>glob = demoGlob, isDirectory = (\<lambda>p. p = ''dist/sub''), basename = posixBasename,
      toLowerCase = map asciiLower, localeCompare = codeUnitCompare, lookup = demoLookup,
      readFile = demoReadFile, request = fixedRequest, deleteReleaseAsset = fixedDelete\<rparr>"

definition fixedState :: "nat state" where
  "fixedState = \<lparr>world = 0, events = []\<rparr>"

section \<open>Properties\<close>

subsection \<open>The aggregated report\<close>

lemma analyzeLoop_isSuccess:
  "isSuccess (analyzeLoop rs acc) = (isSuccess acc \<and> list_all isFulfilled rs)"
  by (induction rs acc rule: analyzeLoop.induct) (simp_all add: isFulfilled_def)

lemma analyzeLoop_assets:
  "map Fulfilled (assets (analyzeLoop rs acc)) = map Fulfilled (assets acc) @ filter isFulfilled rs"
  by (induction rs acc rule: analyzeLoop.induct) (simp_all add: isFulfilled_def)

lemma analyzeLoop_failureReasons:
  "map Rejected (failureReasons (analyzeLoop rs acc)) =
     map Rejected (failureReasons acc) @ filter (\<lambda>r. \<not> isFulfilled r) rs"
  by (induction rs acc rule: analyzeLoop.induct) (simp_all add: isFulfilled_def)

lemma analyzeLoop_counts:
  "successCount (analyzeLoop rs acc) = successCount acc + length (filter isFulfilled rs) \<and>
   failureCount (analyzeLoop rs acc) = failureCount acc + length (filter (\<lambda>r. \<not> isFulfilled r) rs)"
  by (induction rs acc rule: analyzeLoop.induct) (simp_all add: isFulfilled_def)

lemma analyzeResults_isSuccess: "isSuccess (analyzeResults rs) = list_all isFulfilled rs"
  by (simp add: analyzeResults_def analyzeLoop_isSuccess)

lemma analyzeResults_assets: "map Fulfilled (assets (analyzeResults rs)) = filter isFulfilled rs"
  by (simp add: analyzeResults_def analyzeLoop_assets)

lemma mset_sortInsert: "mset (sortInsert c x xs) = add_mset x (mset xs)"
  by (induction xs) simp_all

lemma mset_arraySort: "mset (arraySort c xs) = mset xs"
  by (induction xs) (simp_all add: arraySort_def mset_sortInsert)

lemma snd_aggregate:
  "snd (aggregate env upl upd) =
     arraySort (compareApiAsset env) (assets (analyzeResults upl) @ assets (analyzeResults upd))"
  by (simp add: aggregate_def Let_def)

lemma fst_aggregate:
  "fst (aggregate env upl upd) = (isSuccess (analyzeResults upl) \<and> isSuccess (analyzeResults upd))"
  by (simp add: aggregate_def Let_def)

lemma mset_aggregate:
  "mset (map Fulfilled (snd (aggregate env upl upd))) = filter_mset isFulfilled (mset (upl @ upd))"
proof -
  have "mset (map Fulfilled (snd (aggregate env upl upd)))
        = image_mset Fulfilled (mset (assets (analyzeResults upl) @ assets (analyzeResults upd)))"
    by (simp add: snd_aggregate mset_arraySort)
  also have "\<dots> = mset (map Fulfilled (assets (analyzeResults upl)) @ map Fulfilled (assets (analyzeResults upd)))"
    by simp
  also have "\<dots> = mset (filter isFulfilled upl @ filter isFulfilled upd)"
    by (simp only: analyzeResults_assets)
  finally show ?thesis by simp
qed

subsection \<open>The diff\<close>

lemma diffLoop_toUpload:
  "toUpload (diffLoop E D acc) = toUpload acc @ filter (\<lambda>d. existingFor E d = None) D"
  by (induction D arbitrary: acc) (simp_all add: existingFor_def split: option.split)

lemma diffLoop_toUpdate:
  "toUpdate (diffLoop E D acc) =
     toUpdate acc @ map (\<lambda>d. (the (existingFor E d), d)) (filter (\<lambda>d. existingFor E d \<noteq> None) D)"
  by (induction D arbitrary: acc) (auto simp add: existingFor_def split: option.split)

lemma toUpload_diffAssets:
  "toUpload (diffAssets E D) = filter (\<lambda>d. existingFor E d = None) D"
  by (simp add: diffAssets_def diffLoop_toUpload)

lemma toUpdate_diffAssets:
  "toUpdate (diffAssets E D) =
     map (\<lambda>d. (the (existingFor E d), d)) (filter (\<lambda>d. existingFor E d \<noteq> None) D)"
  by (simp add: diffAssets_def diffLoop_toUpdate)

lemma existingFor_None: "existingFor E d = None \<longleftrightarrow> asset_name d \<notin> assetName ` set E"
  by (auto simp add: existingFor_def find_None_iff image_iff)

lemma existingFor_Some:
  "existingFor E d = Some e \<Longrightarrow> e \<in> set E \<and> assetName e = asset_name d"
  by (auto simp add: existingFor_def find_Some_iff)

text \<open>
  Claim C2. \<^verbatim>\<open>diffAssets\<close> puts a desired asset into \<open>toUpdate\<close> when an existing asset
  has exactly its name (string equality, so case matters) and into \<open>toUpload\<close> otherwise;
  the two lists are disjoint and together hold every desired asset once; every pair of
  \<open>toUpdate\<close> joins an existing and a desired asset of the same name, so an existing
  asset whose name no desired asset has is not in the result.
\<close>

theorem diffAssets_partition:
  "toUpload (diffAssets E D) = filter (\<lambda>d. asset_name d \<notin> assetName ` set E) D
   \<and> map snd (toUpdate (diffAssets E D)) = filter (\<lambda>d. asset_name d \<in> assetName ` set E) D
   \<and> mset (toUpload (diffAssets E D)) + mset (map snd (toUpdate (diffAssets E D))) = mset D
   \<and> set (toUpload (diffAssets E D)) \<inter> snd ` set (toUpdate (diffAssets E D)) = {}
   \<and> (\<forall>(e, d) \<in> set (toUpdate (diffAssets E D)).
         e \<in> set E \<and> d \<in> set D \<and> assetName e = asset_name d)
   \<and> (\<forall>e \<in> set E. assetName e \<notin> asset_name ` set D \<longrightarrow> e \<notin> fst ` set (toUpdate (diffAssets E D)))"
proof -
  have up: "toUpload (diffAssets E D) = filter (\<lambda>d. asset_name d \<notin> assetName ` set E) D"
    by (simp add: toUpload_diffAssets existingFor_None)
  have upd: "map snd (toUpdate (diffAssets E D)) = filter (\<lambda>d. asset_name d \<in> assetName ` set E) D"
    by (simp add: toUpdate_diffAssets existingFor_None comp_def)
  have cover: "mset (toUpload (diffAssets E D)) + mset (map snd (toUpdate (diffAssets E D))) = mset D"
    unfolding up upd by (induction D) simp_all
  have snd_eq: "snd ` set (toUpdate (diffAssets E D)) = set (map snd (toUpdate (diffAssets E D)))"
    by simp
  have disj: "set (toUpload (diffAssets E D)) \<inter> snd ` set (toUpdate (diffAssets E D)) = {}"
    unfolding snd_eq up upd by auto
  have pairs: "\<forall>(e, d) \<in> set (toUpdate (diffAssets E D)).
         e \<in> set E \<and> d \<in> set D \<and> assetName e = asset_name d"
    by (auto simp add: toUpdate_diffAssets dest: existingFor_Some)
  have unref: "\<forall>e \<in> set E. assetName e \<notin> asset_name ` set D \<longrightarrow> e \<notin> fst ` set (toUpdate (diffAssets E D))"
    using pairs by force
  show ?thesis using up upd cover disj pairs unref by blast
qed

theorem diffAssets_partition_witness:
  "toUpload (diffAssets [demoAsset 7 ''a.txt'', demoAsset 5 ''old.zip''] [desiredA, desiredUpperA, desiredB1])
      = [desiredUpperA, desiredB1]
   \<and> map snd (toUpdate (diffAssets [demoAsset 7 ''a.txt'', demoAsset 5 ''old.zip''] [desiredA, desiredUpperA, desiredB1]))
      = [desiredA]
   \<and> demoAsset 7 ''a.txt'' \<in> set [demoAsset 7 ''a.txt'', demoAsset 5 ''old.zip'']
   \<and> assetName (demoAsset 5 ''old.zip'') \<notin> asset_name ` set [desiredA, desiredUpperA, desiredB1]
   \<and> demoAsset 5 ''old.zip'' \<notin> fst ` set (toUpdate (diffAssets [demoAsset 7 ''a.txt'', demoAsset 5 ''old.zip''] [desiredA, desiredUpperA, desiredB1]))"
proof -
  have n: "assetName (demoAsset 7 ''a.txt'') = ''a.txt''" "assetName (demoAsset 5 ''old.zip'') = ''old.zip''"
    by (simp_all add: demoAsset_def normalizeApiAsset_def demoResponse_def)
  have m: "asset_name desiredA = ''a.txt''" "asset_name desiredUpperA = ''A.TXT''" "asset_name desiredB1 = ''b.1.json''"
    by (simp_all add: desiredA_def desiredUpperA_def desiredB1_def)
  show ?thesis
    using diffAssets_partition [of "[demoAsset 7 ''a.txt'', demoAsset 5 ''old.zip'']" "[desiredA, desiredUpperA, desiredB1]"]
    by (simp add: n m)
qed

subsection \<open>Discovery\<close>

lemma findAsset_none:
  "matches env a = [] \<Longrightarrow>
   findAsset env a s =
     (if cfg_optional a then (Inr [], info (NoneFoundForOptional (cfg_path a)) s)
      else (Inl (MandatoryArtifactNotFound (cfg_path a)), s))"
  by (simp add: findAsset_def matches_def Let_def)

lemma findAsset_single:
  "matches env a = [p] \<Longrightarrow>
   findAsset env a s =
     (Inr [normalizeAsset env \<lparr>found_label = cfg_label a, found_name = cfg_name a, found_path = p\<rparr>], s)"
  by (simp add: findAsset_def matches_def Let_def)

lemma findAsset_many:
  "length (matches env a) > 1 \<Longrightarrow>
   findAsset env a s =
     (Inr (map (\<lambda>p. \<lparr>asset_label = [], asset_name = basename env p, asset_path = p\<rparr>) (matches env a)), s)"
  by (cases "matches env a") (simp_all add: findAsset_def matches_def Let_def normalizeAsset_def comp_def)

text \<open>
  Claim C6, as amended. A descriptor whose pattern matches one file gives one asset: its
  label is the descriptor's label when present and empty otherwise, its name is the
  descriptor's name when that is present and not the empty string, and the base name of
  the file otherwise. A descriptor whose pattern matches more than one file gives one
  asset per file, named by the file's base name and with the empty label, whatever
  name and label the descriptor has.
\<close>

theorem findAsset_overrides:
  "(matches env a = [p] \<longrightarrow>
      fst (findAsset env a s) =
        Inr [\<lparr>asset_label = (case cfg_label a of None \<Rightarrow> [] | Some l \<Rightarrow> l),
               asset_name = (case cfg_name a of
                               None \<Rightarrow> basename env p
                             | Some n \<Rightarrow> if n = [] then basename env p else n),
               asset_path = p\<rparr>]) \<and>
   (length (matches env a) > 1 \<longrightarrow>
      fst (findAsset env a s) =
        Inr (map (\<lambda>p. \<lparr>asset_label = [], asset_name = basename env p, asset_path = p\<rparr>)
               (matches env a)))"
  by (simp add: findAsset_single findAsset_many normalizeAsset_def split: option.split)

theorem findAsset_overrides_witness:
  "matches demoEnv \<lparr>cfg_path = ''dist/a.txt'', cfg_name = Some ''notes.txt'', cfg_label = Some ''Notes'', cfg_optional = False\<rparr>
     = [''dist/a.txt'']
   \<and> fst (findAsset demoEnv
        \<lparr>cfg_path = ''dist/a.txt'', cfg_name = Some ''notes.txt'', cfg_label = Some ''Notes'', cfg_optional = False\<rparr> demoState)
     = Inr [\<lparr>asset_label = ''Notes'', asset_name = ''notes.txt'', asset_path = ''dist/a.txt''\<rparr>]
   \<and> length (matches demoEnv \<lparr>cfg_path = ''dist/b.*.json'', cfg_name = Some ''notes.txt'', cfg_label = Some ''Notes'', cfg_optional = False\<rparr>) > 1
   \<and> fst (findAsset demoEnv
        \<lparr>cfg_path = ''dist/b.*.json'', cfg_name = Some ''notes.txt'', cfg_label = Some ''Notes'', cfg_optional = False\<rparr> demoState)
     = Inr [\<lparr>asset_label = [], asset_name = ''b.1.json'', asset_path = ''dist/b.1.json''\<rparr>,
            \<lparr>asset_label = [], asset_name = ''b.2.json'', asset_path = ''dist/b.2.json''\<rparr>]"
proof -
  let ?a = "\<lparr>cfg_path = ''dist/a.txt'', cfg_name = Some ''notes.txt'', cfg_label = Some ''Notes'', cfg_optional = False\<rparr>"
  let ?b = "\<lparr>cfg_path = ''dist/b.*.json'', cfg_name = Some ''notes.txt'', cfg_label = Some ''Notes'', cfg_optional = False\<rparr>"
  have ma: "matches demoEnv ?a = [''dist/a.txt'']"
    by (simp add: matches_def demoEnv_def demoGlob_def)
  have mb: "matches demoEnv ?b = [''dist/b.1.json'', ''dist/b.2.json'']"
    by (simp add: matches_def demoEnv_def demoGlob_def)
  have bn: "basename demoEnv ''dist/b.1.json'' = ''b.1.json''" "basename demoEnv ''dist/b.2.json'' = ''b.2.json''"
    by (simp_all add: demoEnv_def posixBasename_def)
  from findAsset_overrides [of demoEnv ?a "''dist/a.txt''" demoState] ma
  have 1: "fst (findAsset demoEnv ?a demoState)
     = Inr [\<lparr>asset_label = ''Notes'', asset_name = ''notes.txt'', asset_path = ''dist/a.txt''\<rparr>]"
    by simp
  from findAsset_overrides [of demoEnv ?b "''dist/a.txt''" demoState] mb bn
  have 2: "fst (findAsset demoEnv ?b demoState)
     = Inr [\<lparr>asset_label = [], asset_name = ''b.1.json'', asset_path = ''dist/b.1.json''\<rparr>,
            \<lparr>asset_label = [], asset_name = ''b.2.json'', asset_path = ''dist/b.2.json''\<rparr>]"
    by simp
  show ?thesis using ma mb 1 2 by simp
qed

text \<open>
  The claim as first stated (the name override is carried whenever it is present) fails
  for the override \<^verbatim>\<open>name: ""\<close>: the asset is named by the file.
\<close>

theorem findAsset_empty_name_not_carried:
  "cfg_name emptyNameA = Some ''''
   \<and> matches demoEnv emptyNameA = [''dist/a.txt'']
   \<and> fst (findAsset demoEnv emptyNameA demoState)
       = Inr [\<lparr>asset_label = '''', asset_name = ''a.txt'', asset_path = ''dist/a.txt''\<rparr>]
   \<and> asset_name \<lparr>asset_label = '''', asset_name = ''a.txt'', asset_path = ''dist/a.txt''\<rparr> \<noteq> ''''"
  by (simp add: emptyNameA_def matches_def findAsset_def normalizeAsset_def demoEnv_def
      demoGlob_def posixBasename_def Let_def)

text \<open>
  Claim C10. For a descriptor whose pattern matches one file and whose name override is
  the empty string, the asset's name is the base name of the matched file.
\<close>

theorem findAsset_empty_name_falls_back:
  assumes "matches env a = [p]" and "cfg_name a = Some []"
  shows "findAsset env a s =
           (Inr [\<lparr>asset_label = (case cfg_label a of None \<Rightarrow> [] | Some l \<Rightarrow> l),
                  asset_name = basename env p, asset_path = p\<rparr>], s)"
  using assms by (simp add: findAsset_single normalizeAsset_def)

theorem findAsset_empty_name_falls_back_witness:
  "matches demoEnv \<lparr>cfg_path = ''dist/a.txt'', cfg_name = Some [], cfg_label = Some ''Notes'', cfg_optional = False\<rparr> = [''dist/a.txt'']
   \<and> findAsset demoEnv \<lparr>cfg_path = ''dist/a.txt'', cfg_name = Some [], cfg_label = Some ''Notes'', cfg_optional = False\<rparr> demoState
       = (Inr [\<lparr>asset_label = ''Notes'', asset_name = ''a.txt'', asset_path = ''dist/a.txt''\<rparr>], demoState)"
proof -
  let ?a = "\<lparr>cfg_path = ''dist/a.txt'', cfg_name = Some [], cfg_label = Some ''Notes'', cfg_optional = False\<rparr>"
  have m: "matches demoEnv ?a = [''dist/a.txt'']"
    by (simp add: matches_def demoEnv_def demoGlob_def)
  have n: "cfg_name ?a = Some []" by simp
  show ?thesis
    using findAsset_empty_name_falls_back [OF m n, of demoState] m by (simp add: demoEnv_def posixBasename_def)
qed

subsection \<open>Deduplication\<close>

lemma fst_dedupe_state: "fst (dedupe env seen xs s) = fst (dedupe env seen xs t)"
proof (induction xs arbitrary: seen s t)
  case Nil
  show ?case by simp
next
  case (Cons x xs)
  show ?case
  proof (cases "toLowerCase env (asset_name x) \<in> seen")
    case True
    then show ?thesis using Cons.IH by (simp add: Let_def)
  next
    case False
    then show ?thesis
      using Cons.IH [of "insert (toLowerCase env (asset_name x)) seen" s t]
      by (simp add: Let_def case_prod_beta)
  qed
qed

lemma fst_dedupe_Cons:
  "fst (dedupe env seen (x # xs) s) =
     (if lowerName env x \<in> seen then fst (dedupe env seen xs s)
      else x # fst (dedupe env (insert (lowerName env x) seen) xs s))"
  using fst_dedupe_state [of env seen xs "warning (FoundMultipleTimes (asset_name x)) s" s]
  by (simp add: Let_def lowerName_def split: prod.split)

lemma snd_dedupe_Cons:
  "snd (dedupe env seen (x # xs) s) =
     (if lowerName env x \<in> seen
      then snd (dedupe env seen xs (warning (FoundMultipleTimes (asset_name x)) s))
      else snd (dedupe env (insert (lowerName env x) seen) xs s))"
  by (simp add: Let_def lowerName_def split: prod.split)

lemma fst_dedupe_Nil: "fst (dedupe env seen [] s) = []"
  by simp

lemma snd_dedupe_Nil: "snd (dedupe env seen [] s) = s"
  by simp

declare dedupe.simps [simp del]

lemma index_filter_Cons:
  "map ((!) (x # xs)) (filter P [0..<Suc n]) =
     (if P 0 then [x] else []) @ map ((!) xs) (filter (\<lambda>i. P (Suc i)) [0..<n])"
proof -
  have "[0..<Suc n] = 0 # map Suc [0..<n]"
    by (simp add: upt_conv_Cons map_Suc_upt del: upt_Suc)
  then show ?thesis
    by (simp add: filter_map comp_def del: upt_Suc)
qed

lemma index_filter_Cons_f:
  "map (\<lambda>i. f ((x # xs) ! i)) (filter P [0..<Suc n]) =
     (if P 0 then [f x] else []) @ map (\<lambda>i. f (xs ! i)) (filter (\<lambda>i. P (Suc i)) [0..<n])"
proof -
  have "[0..<Suc n] = 0 # map Suc [0..<n]"
    by (simp add: upt_conv_Cons map_Suc_upt del: upt_Suc)
  then show ?thesis
    by (simp add: filter_map comp_def del: upt_Suc)
qed

lemma fst_dedupe_index:
  "fst (dedupe env seen xs s) =
     map ((!) xs)
       (filter (\<lambda>i. lowerName env (xs ! i) \<notin> seen \<union> lowerName env ` set (take i xs)) [0..<length xs])"
proof (induction xs arbitrary: seen)
  case Nil
  show ?case by (simp add: fst_dedupe_Nil)
next
  case (Cons x xs)
  show ?case
    unfolding fst_dedupe_Cons length_Cons index_filter_Cons Cons.IH
    by (auto simp del: upt_Suc intro!: arg_cong [where f = "map ((!) xs)"] filter_cong)
qed

lemma snd_dedupe_index:
  "snd (dedupe env seen xs s) =
     s\<lparr>events := events s @
         map (\<lambda>i. duplicateWarning (xs ! i))
           (filter (\<lambda>i. \<not> lowerName env (xs ! i) \<notin> seen \<union> lowerName env ` set (take i xs)) [0..<length xs])\<rparr>"
proof (induction xs arbitrary: seen s)
  case Nil
  show ?case by (simp add: snd_dedupe_Nil)
next
  case (Cons x xs)
  have eq: "filter (\<lambda>i. \<not> lowerName env (xs ! i) \<notin> insert (lowerName env x) seen \<union> lowerName env ` set (take i xs)) [0..<length xs]
     = filter (\<lambda>i. \<not> lowerName env ((x # xs) ! Suc i) \<notin> seen \<union> lowerName env ` set (take (Suc i) (x # xs))) [0..<length xs]"
    by (rule filter_cong) auto
  have eq': "lowerName env x \<in> seen \<Longrightarrow>
     filter (\<lambda>i. \<not> lowerName env (xs ! i) \<notin> seen \<union> lowerName env ` set (take i xs)) [0..<length xs]
     = filter (\<lambda>i. \<not> lowerName env ((x # xs) ! Suc i) \<notin> seen \<union> lowerName env ` set (take (Suc i) (x # xs))) [0..<length xs]"
    by (rule filter_cong) auto
  show ?case
  proof (cases "lowerName env x \<in> seen")
    case True
    show ?thesis
      unfolding snd_dedupe_Cons length_Cons index_filter_Cons_f Cons.IH eq' [OF True, symmetric]
      using True by (simp add: warning_def emit_def duplicateWarning_def del: upt_Suc)
  next
    case False
    show ?thesis
      unfolding snd_dedupe_Cons length_Cons index_filter_Cons_f Cons.IH eq [symmetric]
      using False by (simp del: upt_Suc)
  qed
qed

lemma dedupe_keys:
  "distinct (map (lowerName env) (fst (dedupe env seen xs s))) \<and>
   lowerName env ` set (fst (dedupe env seen xs s)) \<inter> seen = {}"
proof (induction xs arbitrary: seen)
  case Nil
  show ?case by (simp add: fst_dedupe_Nil)
next
  case (Cons x xs)
  show ?case
    using Cons.IH [of seen] Cons.IH [of "insert (lowerName env x) seen"]
    by (auto simp add: fst_dedupe_Cons)
qed

lemma dedupe_fixed:
  "distinct (map (lowerName env) ys) \<Longrightarrow> lowerName env ` set ys \<inter> seen = {} \<Longrightarrow>
   dedupe env seen ys s = (ys, s)"
proof (induction ys arbitrary: seen)
  case Nil
  show ?case by (simp add: dedupe.simps)
next
  case (Cons y ys)
  from Cons.prems have "lowerName env y \<notin> seen" by auto
  moreover from Cons.prems have "dedupe env (insert (lowerName env y) seen) ys s = (ys, s)"
    by (intro Cons.IH) auto
  ultimately show ?case by (simp add: lowerName_def dedupe.simps)
qed

lemma subseq_dedupe: "subseq (fst (dedupe env seen xs s)) xs"
  by (induction xs arbitrary: seen) (auto simp add: fst_dedupe_Cons fst_dedupe_Nil intro: list_emb_Cons)

lemma fst_dedupe_append:
  "fst (dedupe env seen (xs @ ys) s) =
     fst (dedupe env seen xs s) @ fst (dedupe env (seen \<union> lowerName env ` set xs) ys s)"
  by (induction xs arbitrary: seen) (auto simp add: fst_dedupe_Cons fst_dedupe_Nil insert_absorb)

text \<open>
  Claim C7. The deduplication keeps the candidates at the positions that hold the first
  occurrence of their case-insensitive name, in their order; it emits, in order, one warning
  with the asset's name for every other position, and nothing else; the result is a
  subsequence of the candidates, and its case-insensitive names are pairwise distinct.
\<close>

theorem dedupe_first_occurrences:
  "fst (dedupe env {} xs s) = map ((!) xs) (filter (firstOccurrence env xs) [0..<length xs])
   \<and> snd (dedupe env {} xs s) =
       s\<lparr>events := events s @
           map (\<lambda>i. Warning (FoundMultipleTimes (asset_name (xs ! i))))
             (filter (\<lambda>i. \<not> firstOccurrence env xs i) [0..<length xs])\<rparr>
   \<and> subseq (fst (dedupe env {} xs s)) xs
   \<and> distinct (map (\<lambda>x. toLowerCase env (asset_name x)) (fst (dedupe env {} xs s)))"
proof -
  have fo: "firstOccurrence env xs = (\<lambda>i. lowerName env (xs ! i) \<notin> lowerName env ` set (take i xs))"
    by (rule ext) (simp add: firstOccurrence_def)
  have 1: "fst (dedupe env {} xs s) = map ((!) xs) (filter (firstOccurrence env xs) [0..<length xs])"
    using fst_dedupe_index [of env "{}" xs s] by (simp add: fo)
  have 2: "snd (dedupe env {} xs s) =
       s\<lparr>events := events s @
           map (\<lambda>i. Warning (FoundMultipleTimes (asset_name (xs ! i))))
             (filter (\<lambda>i. \<not> firstOccurrence env xs i) [0..<length xs])\<rparr>"
    using snd_dedupe_index [of env "{}" xs s] by (simp add: fo duplicateWarning_def)
  have 3: "subseq (fst (dedupe env {} xs s)) xs"
    by (rule subseq_dedupe)
  have "lowerName env = (\<lambda>x. toLowerCase env (asset_name x))"
    by (rule ext) (simp add: lowerName_def)
  then have 4: "distinct (map (\<lambda>x. toLowerCase env (asset_name x)) (fst (dedupe env {} xs s)))"
    using dedupe_keys [of env "{}" xs s] by simp
  show ?thesis using 1 2 3 4 by blast
qed

theorem dedupe_first_occurrences_witness:
  "fst (dedupe demoEnv {} [desiredA, desiredB1, desiredUpperA, desiredA] demoState) = [desiredA, desiredB1]
   \<and> events (snd (dedupe demoEnv {} [desiredA, desiredB1, desiredUpperA, desiredA] demoState))
      = [Warning (FoundMultipleTimes ''A.TXT''), Warning (FoundMultipleTimes ''a.txt'')]"
proof -
  have l: "lowerName demoEnv desiredA = ''a.txt''" "lowerName demoEnv desiredUpperA = ''a.txt''"
     "lowerName demoEnv desiredB1 = ''b.1.json''"
    by (simp_all add: lowerName_def demoEnv_def desiredA_def desiredUpperA_def desiredB1_def asciiLower_def)
  have f: "firstOccurrence demoEnv [desiredA, desiredB1, desiredUpperA, desiredA] 0"
     "firstOccurrence demoEnv [desiredA, desiredB1, desiredUpperA, desiredA] (Suc 0)"
     "\<not> firstOccurrence demoEnv [desiredA, desiredB1, desiredUpperA, desiredA] (Suc (Suc 0))"
     "\<not> firstOccurrence demoEnv [desiredA, desiredB1, desiredUpperA, desiredA] (Suc (Suc (Suc 0)))"
    by (simp_all add: firstOccurrence_def l)
  have e: "events demoState = []" by (simp add: demoState_def)
  have nm: "asset_name desiredUpperA = ''A.TXT''" "asset_name desiredA = ''a.txt''"
    by (simp_all add: desiredA_def desiredUpperA_def)
  show ?thesis
    using dedupe_first_occurrences [of demoEnv "[desiredA, desiredB1, desiredUpperA, desiredA]" demoState]
    by (simp add: upt_rec f e nm)
qed

lemma fst_dedupe_filter:
  "fst (dedupe env (A \<union> B) xs s) = fst (dedupe env B (filter (\<lambda>y. lowerName env y \<notin> A) xs) s)"
proof (induction xs arbitrary: B)
  case Nil
  show ?case by (simp add: fst_dedupe_Nil)
next
  case (Cons x xs)
  have "A \<union> insert (lowerName env x) B = insert (lowerName env x) (A \<union> B)" by blast
  with Cons [of B] Cons [of "insert (lowerName env x) B"] show ?case
    by (simp add: fst_dedupe_Cons)
qed

lemma fst_dedupe_first:
  "fst (dedupe env {} (x # xs) s)
     = x # fst (dedupe env {} (filter (\<lambda>y. lowerName env y \<noteq> lowerName env x) xs) s)"
  using fst_dedupe_filter [of env "{lowerName env x}" "{}" xs s]
  by (simp add: fst_dedupe_Cons)

lemma filter_dedupe:
  "filter (\<lambda>z. lowerName env z = k) (fst (dedupe env seen xs s))
     = (if k \<in> seen then [] else take 1 (filter (\<lambda>z. lowerName env z = k) xs))"
proof (induction xs arbitrary: seen)
  case Nil
  show ?case by (simp add: fst_dedupe_Nil)
next
  case (Cons x xs)
  show ?case by (auto simp add: fst_dedupe_Cons Cons)
qed

lemma dedupe_pair:
  assumes "lowerName env a = lowerName env b"
  shows "dedupe env {} [a, b] s = ([a], warning (FoundMultipleTimes (asset_name b)) s)"
  using assms by (simp add: dedupe.simps lowerName_def Let_def)

text \<open>
  Claim C8. Deduplicating a deduplicated list returns it unchanged, without a warning.
  A candidate whose case-insensitive name an earlier candidate has is dropped: the result
  is the one of the list without it. The first candidate of a list is kept and every later
  candidate with its case-insensitive name is dropped; so the candidates with one
  case-insensitive name collapse to the first of them, and of two candidates whose names
  differ only in letter case the first is returned and the second is warned about.
\<close>

theorem dedupe_idempotent:
  "dedupe env {} (fst (dedupe env {} xs s)) t = (fst (dedupe env {} xs s), t)
   \<and> (toLowerCase env (asset_name b) \<in> (\<lambda>x. toLowerCase env (asset_name x)) ` set pre \<longrightarrow>
        fst (dedupe env {} (pre @ b # post) s) = fst (dedupe env {} (pre @ post) s))
   \<and> fst (dedupe env {} (x # xs) s)
       = x # fst (dedupe env {}
                 (filter (\<lambda>y. toLowerCase env (asset_name y) \<noteq> toLowerCase env (asset_name x)) xs) s)
   \<and> filter (\<lambda>z. toLowerCase env (asset_name z) = k) (fst (dedupe env {} xs s))
       = take 1 (filter (\<lambda>z. toLowerCase env (asset_name z) = k) xs)
   \<and> (toLowerCase env (asset_name a) = toLowerCase env (asset_name b) \<longrightarrow>
        dedupe env {} [a, b] s = ([a], warning (FoundMultipleTimes (asset_name b)) s))"
proof -
  have l: "lowerName env = (\<lambda>x. toLowerCase env (asset_name x))"
    by (rule ext) (simp add: lowerName_def)
  have 1: "dedupe env {} (fst (dedupe env {} xs s)) t = (fst (dedupe env {} xs s), t)"
    using dedupe_keys [of env "{}" xs s] by (intro dedupe_fixed) simp_all
  have 2: "fst (dedupe env {} (pre @ b # post) s) = fst (dedupe env {} (pre @ post) s)"
    if "toLowerCase env (asset_name b) \<in> (\<lambda>x. toLowerCase env (asset_name x)) ` set pre"
  proof -
    from that have "lowerName env b \<in> lowerName env ` set pre" by (simp add: l)
    then show ?thesis by (simp add: fst_dedupe_append fst_dedupe_Cons)
  qed
  have 3: "fst (dedupe env {} (x # xs) s)
       = x # fst (dedupe env {}
                 (filter (\<lambda>y. toLowerCase env (asset_name y) \<noteq> toLowerCase env (asset_name x)) xs) s)"
    using fst_dedupe_first [of env x xs s] by (simp add: l)
  have 4: "filter (\<lambda>z. toLowerCase env (asset_name z) = k) (fst (dedupe env {} xs s))
       = take 1 (filter (\<lambda>z. toLowerCase env (asset_name z) = k) xs)"
    using filter_dedupe [of env k "{}" xs s] by (simp add: l)
  have 5: "dedupe env {} [a, b] s = ([a], warning (FoundMultipleTimes (asset_name b)) s)"
    if "toLowerCase env (asset_name a) = toLowerCase env (asset_name b)"
    using that by (intro dedupe_pair) (simp add: l)
  show ?thesis
    apply (intro conjI impI)
    subgoal by (rule 1)
    subgoal by (rule 2)
    subgoal by (rule 3)
    subgoal by (rule 4)
    subgoal by (rule 5)
    done
qed

theorem dedupe_idempotent_witness:
  "toLowerCase demoEnv (asset_name desiredA) = ''a.txt''
   \<and> toLowerCase demoEnv (asset_name desiredUpperA) = ''a.txt''
   \<and> toLowerCase demoEnv (asset_name desiredB1) = ''b.1.json''
   \<and> fst (dedupe demoEnv {} [desiredA, desiredUpperA, desiredB1] demoState) = [desiredA, desiredB1]
   \<and> fst (dedupe demoEnv {} [desiredUpperA, desiredA, desiredB1] demoState) = [desiredUpperA, desiredB1]
   \<and> fst (dedupe demoEnv {} ([desiredA] @ desiredUpperA # [desiredB1]) demoState)
       = fst (dedupe demoEnv {} ([desiredA] @ [desiredB1]) demoState)
   \<and> dedupe demoEnv {} [desiredA, desiredB1] demoState = ([desiredA, desiredB1], demoState)
   \<and> filter (\<lambda>z. toLowerCase demoEnv (asset_name z) = ''a.txt'')
        (fst (dedupe demoEnv {} [desiredB1, desiredUpperA, desiredA] demoState)) = [desiredUpperA]
   \<and> dedupe demoEnv {} [desiredA, desiredUpperA] demoState
       = ([desiredA], demoState\<lparr>events := [Warning (FoundMultipleTimes ''A.TXT'')]\<rparr>)"
proof -
  have n: "toLowerCase demoEnv (asset_name desiredA) = ''a.txt''"
    "toLowerCase demoEnv (asset_name desiredUpperA) = ''a.txt''"
    "toLowerCase demoEnv (asset_name desiredB1) = ''b.1.json''"
    by (simp_all add: demoEnv_def desiredA_def desiredUpperA_def desiredB1_def asciiLower_def)
  have nil: "fst (dedupe demoEnv {} [] demoState) = []" by (rule fst_dedupe_Nil)
  have b: "fst (dedupe demoEnv {} [desiredB1] demoState) = [desiredB1]"
    using dedupe_idempotent [where env = demoEnv and s = demoState and x = desiredB1 and xs = "[]"] nil
    by simp
  have 1: "fst (dedupe demoEnv {} [desiredA, desiredUpperA, desiredB1] demoState) = [desiredA, desiredB1]"
    using dedupe_idempotent [where env = demoEnv and s = demoState and x = desiredA
        and xs = "[desiredUpperA, desiredB1]"] b
    by (simp add: n)
  have 2: "fst (dedupe demoEnv {} [desiredUpperA, desiredA, desiredB1] demoState) = [desiredUpperA, desiredB1]"
    using dedupe_idempotent [where env = demoEnv and s = demoState and x = desiredUpperA
        and xs = "[desiredA, desiredB1]"] b
    by (simp add: n)
  have l: "toLowerCase demoEnv (asset_name desiredUpperA)
             \<in> (\<lambda>x. toLowerCase demoEnv (asset_name x)) ` set [desiredA]"
    by (simp add: n)
  have 3: "fst (dedupe demoEnv {} ([desiredA] @ desiredUpperA # [desiredB1]) demoState)
       = fst (dedupe demoEnv {} ([desiredA] @ [desiredB1]) demoState)"
    using dedupe_idempotent [where env = demoEnv and s = demoState and b = desiredUpperA
        and pre = "[desiredA]" and post = "[desiredB1]"] l
    by blast
  have 4: "dedupe demoEnv {} [desiredA, desiredB1] demoState = ([desiredA, desiredB1], demoState)"
    using dedupe_idempotent [where env = demoEnv and xs = "[desiredA, desiredUpperA, desiredB1]"
        and s = demoState and t = demoState]
    unfolding 1 by blast
  have 5: "filter (\<lambda>z. toLowerCase demoEnv (asset_name z) = ''a.txt'')
        (fst (dedupe demoEnv {} [desiredB1, desiredUpperA, desiredA] demoState)) = [desiredUpperA]"
    using dedupe_idempotent [where env = demoEnv and xs = "[desiredB1, desiredUpperA, desiredA]"
        and s = demoState and x = desiredB1 and k = "''a.txt''"]
    by (simp add: n)
  have w: "warning (FoundMultipleTimes (asset_name desiredUpperA)) demoState
             = demoState\<lparr>events := [Warning (FoundMultipleTimes ''A.TXT'')]\<rparr>"
    by (simp add: warning_def emit_def demoState_def desiredUpperA_def)
  have 6: "dedupe demoEnv {} [desiredA, desiredUpperA] demoState
       = ([desiredA], demoState\<lparr>events := [Warning (FoundMultipleTimes ''A.TXT'')]\<rparr>)"
    using dedupe_idempotent [where env = demoEnv and s = demoState and a = desiredA and b = desiredUpperA]
    by (simp add: n w)
  show ?thesis
    apply (intro conjI)
    subgoal by (rule n(1))
    subgoal by (rule n(2))
    subgoal by (rule n(3))
    subgoal by (rule 1)
    subgoal by (rule 2)
    subgoal by (rule 3)
    subgoal by (rule 4)
    subgoal by (rule 5)
    subgoal by (rule 6)
    done
qed

subsection \<open>The whole discovery\<close>

lemma world_emit: "world (emit e s) = world s"
  by (simp add: emit_def)

lemma events_emit: "events (emit e s) = events s @ [e]"
  by (simp add: emit_def)

lemma world_info: "world (info m s) = world s"
  by (simp add: info_def world_emit)

lemma events_info: "events (info m s) = events s @ [Info m]"
  by (simp add: info_def events_emit)

lemma findAsset_nonempty:
  "matches env a \<noteq> [] \<Longrightarrow> \<exists>x xs. \<forall>s. findAsset env a s = (Inr (x # xs), s)"
proof (cases "matches env a")
  case Nil
  assume "matches env a \<noteq> []"
  with Nil show ?thesis by simp
next
  case (Cons p ps)
  then show ?thesis
    by (cases ps) (simp_all add: findAsset_def matches_def Let_def)
qed

lemma fst_findAsset_state: "fst (findAsset env a s) = fst (findAsset env a t)"
  by (simp add: findAsset_def Let_def)

text \<open>What the loop of findAssets logs: one note per optional descriptor without a match.\<close>

lemma findAll_state:
  "\<exists>ps. snd (findAll env as found s) =
          s\<lparr>events := events s @ map (\<lambda>p. Info (NoneFoundForOptional p)) ps\<rparr>"
proof (induction as arbitrary: found s)
  case Nil
  have "snd (findAll env [] found s) = s\<lparr>events := events s @ map (\<lambda>p. Info (NoneFoundForOptional p)) []\<rparr>"
    by simp
  then show ?case by blast
next
  case (Cons a as)
  show ?case
  proof (cases "matches env a = []")
    case True
    show ?thesis
    proof (cases "cfg_optional a")
      case False
      with True have "snd (findAll env (a # as) found s)
          = s\<lparr>events := events s @ map (\<lambda>p. Info (NoneFoundForOptional p)) []\<rparr>"
        by (simp add: findAsset_none)
      then show ?thesis by blast
    next
      case opt: True
      let ?s = "info (NoneFoundForOptional (cfg_path a)) s"
      from Cons.IH [of found ?s] obtain ps where
        "snd (findAll env as found ?s) = ?s\<lparr>events := events ?s @ map (\<lambda>p. Info (NoneFoundForOptional p)) ps\<rparr>"
        by blast
      with True opt have "snd (findAll env (a # as) found s)
          = s\<lparr>events := events s @ map (\<lambda>p. Info (NoneFoundForOptional p)) (cfg_path a # ps)\<rparr>"
        by (simp add: findAsset_none info_def emit_def)
      then show ?thesis by blast
    qed
  next
    case False
    from findAsset_nonempty [OF False] obtain x xs where
      r: "\<And>s. findAsset env a s = (Inr (x # xs), s)" by blast
    from Cons.IH [of "found @ x # xs" s] obtain ps where
      "snd (findAll env as (found @ x # xs) s) = s\<lparr>events := events s @ map (\<lambda>p. Info (NoneFoundForOptional p)) ps\<rparr>"
      by blast
    with False r have "snd (findAll env (a # as) found s)
          = s\<lparr>events := events s @ map (\<lambda>p. Info (NoneFoundForOptional p)) ps\<rparr>"
      by (simp add: findAsset_none)
    then show ?thesis by blast
  qed
qed

lemma fst_findAll_state: "fst (findAll env as found s) = fst (findAll env as found t)"
proof (induction as arbitrary: found s t)
  case Nil
  show ?case by simp
next
  case (Cons a as)
  show ?case
  proof (cases "matches env a = []")
    case True
    then show ?thesis
      using Cons.IH by (simp add: findAsset_none)
  next
    case False
    from findAsset_nonempty [OF False] obtain x xs where
      r: "\<And>s. findAsset env a s = (Inr (x # xs), s)" by blast
    show ?thesis
      using False r Cons.IH [of "found @ x # xs" s t]
      by (simp add: findAsset_none)
  qed
qed

lemma findAll_mandatory:
  "d \<in> set as \<Longrightarrow> \<not> cfg_optional d \<Longrightarrow> matches env d = [] \<Longrightarrow>
   \<exists>d' \<in> set as. \<not> cfg_optional d' \<and> matches env d' = [] \<and>
      fst (findAll env as found s) = Inl (MandatoryArtifactNotFound (cfg_path d'))"
proof (induction as arbitrary: found s)
  case Nil
  then show ?case by simp
next
  case (Cons a as)
  show ?case
  proof (cases "matches env a = []")
    case True
    show ?thesis
    proof (cases "cfg_optional a")
      case False
      with True have "fst (findAll env (a # as) found s) = Inl (MandatoryArtifactNotFound (cfg_path a))"
        by (simp add: findAsset_none)
      with True False show ?thesis by auto
    next
      case opt: True
      with Cons.prems have "d \<in> set as" by auto
      from Cons.IH [OF this Cons.prems(2,3), of found "info (NoneFoundForOptional (cfg_path a)) s"]
      show ?thesis using True opt by (auto simp add: findAsset_none)
    qed
  next
    case False
    with Cons.prems have din: "d \<in> set as" by auto
    from findAsset_nonempty [OF False] obtain x xs where
      r: "\<And>s. findAsset env a s = (Inr (x # xs), s)" by blast
    from Cons.IH [OF din Cons.prems(2,3), of "found @ x # xs" s]
    show ?thesis using False r by (auto simp add: findAsset_none)
  qed
qed

lemma findAll_extends:
  "fst (findAll env as found s) = Inr ys \<Longrightarrow> \<exists>zs. ys = found @ zs"
proof (induction as arbitrary: found s)
  case Nil
  then show ?case by simp
next
  case (Cons a as)
  show ?case
  proof (cases "matches env a = []")
    case True
    with Cons.prems have "cfg_optional a"
      by (auto simp add: findAsset_none split: if_splits)
    with True Cons.prems Cons.IH [of found "info (NoneFoundForOptional (cfg_path a)) s"]
    show ?thesis by (simp add: findAsset_none)
  next
    case False
    from findAsset_nonempty [OF False] obtain x xs where
      r: "\<And>s. findAsset env a s = (Inr (x # xs), s)" by blast
    with False Cons.prems Cons.IH [of "found @ x # xs" s]
    show ?thesis by (auto simp add: findAsset_none)
  qed
qed

lemma findAll_empty:
  "fst (findAll env as [] s) = Inr [] \<Longrightarrow>
   snd (findAll env as [] s) =
     s\<lparr>events := events s @ map (\<lambda>a. Info (NoneFoundForOptional (cfg_path a))) as\<rparr>"
proof (induction as arbitrary: s)
  case Nil
  show ?case by simp
next
  case (Cons a as)
  show ?case
  proof (cases "matches env a = []")
    case True
    with Cons.prems have opt: "cfg_optional a"
      by (auto simp add: findAsset_none split: if_splits)
    let ?s = "info (NoneFoundForOptional (cfg_path a)) s"
    from True opt Cons.prems have "fst (findAll env as [] ?s) = Inr []"
      by (simp add: findAsset_none)
    from Cons.IH [OF this] True opt show ?thesis
      by (simp add: findAsset_none info_def emit_def)
  next
    case False
    from findAsset_nonempty [OF False] obtain x xs where
      r: "\<And>s. findAsset env a s = (Inr (x # xs), s)" by blast
    with False Cons.prems have "fst (findAll env as (x # xs) s) = Inr []"
      by (simp add: findAsset_none)
    from findAll_extends [OF this] show ?thesis by simp
  qed
qed

lemma findAll_skip_optional:
  "cfg_optional d \<Longrightarrow> matches env d = [] \<Longrightarrow>
   fst (findAll env (pre @ d # post) found s) = fst (findAll env (pre @ post) found s)"
proof (induction pre arbitrary: found s)
  case Nil
  then show ?case
    using fst_findAll_state [of env post found "info (NoneFoundForOptional (cfg_path d)) s" s]
    by (simp add: findAsset_none)
next
  case (Cons a pre)
  show ?case
  proof (cases "matches env a = []")
    case True
    then show ?thesis
      using Cons.IH [OF Cons.prems] by (simp add: findAsset_none)
  next
    case False
    from findAsset_nonempty [OF False] obtain x xs where
      r: "\<And>s. findAsset env a s = (Inr (x # xs), s)" by blast
    show ?thesis
      using False r Cons.IH [OF Cons.prems] by (simp add: findAsset_none)
  qed
qed

lemma fst_findAssets:
  "fst (findAssets env as s) =
     (case fst (findAll env as [] t) of
        Inl e \<Rightarrow> Inl e
      | Inr found \<Rightarrow> Inr (fst (dedupe env {} found t)))"
proof (cases "findAll env as [] s")
  case (Pair r s')
  then have r: "fst (findAll env as [] t) = r"
    using fst_findAll_state [of env as "[]" t s] by simp
  show ?thesis
  proof (cases r)
    case (Inl e)
    with Pair r show ?thesis by (simp add: findAssets_def)
  next
    case (Inr found)
    with Pair r show ?thesis
      using fst_dedupe_state [of env "{}" found s' t]
      by (simp add: findAssets_def case_prod_beta)
  qed
qed

lemma fst_findAssets_state: "fst (findAssets env as s) = fst (findAssets env as t)"
  by (simp add: fst_findAssets [of env as s t] fst_findAssets [of env as t t])

lemma world_dedupe: "world (snd (dedupe env seen xs s)) = world s"
  by (simp add: snd_dedupe_index)

lemma world_findAll: "world (snd (findAll env as found s)) = world s"
  using findAll_state [of env as found s] by auto

lemma world_findAssets: "world (snd (findAssets env as s)) = world s"
proof (cases "findAll env as [] s")
  case (Pair r s')
  then have w: "world s' = world s"
    using world_findAll [of env as "[]" s] by simp
  show ?thesis
  proof (cases r)
    case (Inl e)
    with Pair w show ?thesis by (simp add: findAssets_def)
  next
    case (Inr found)
    with Pair w show ?thesis
      using world_dedupe [of env "{}" found s'] by (simp add: findAssets_def case_prod_beta)
  qed
qed

lemma findAssets_mandatory:
  assumes "d \<in> set as" "\<not> cfg_optional d" "matches env d = []"
  shows "\<exists>d' \<in> set as. \<not> cfg_optional d' \<and> matches env d' = [] \<and>
           fst (findAssets env as s) = Inl (MandatoryArtifactNotFound (cfg_path d')) \<and>
           (\<exists>ps. snd (findAssets env as s) =
                   s\<lparr>events := events s @ map (\<lambda>p. Info (NoneFoundForOptional p)) ps\<rparr>)"
proof -
  from findAll_mandatory [OF assms, of "[]" s] obtain d' where
    d': "d' \<in> set as" "\<not> cfg_optional d'" "matches env d' = []"
      "fst (findAll env as [] s) = Inl (MandatoryArtifactNotFound (cfg_path d'))"
    by blast
  from findAll_state [of env as "[]" s] obtain ps where
    ps: "snd (findAll env as [] s) = s\<lparr>events := events s @ map (\<lambda>p. Info (NoneFoundForOptional p)) ps\<rparr>"
    by blast
  from d'(4) ps have "findAssets env as s =
      (Inl (MandatoryArtifactNotFound (cfg_path d')),
       s\<lparr>events := events s @ map (\<lambda>p. Info (NoneFoundForOptional p)) ps\<rparr>)"
    by (cases "findAll env as [] s") (simp add: findAssets_def)
  with d'(1,2,3) show ?thesis by auto
qed

lemma dedupe_Nil_iff: "fst (dedupe env {} xs s) = [] \<longleftrightarrow> xs = []"
  by (cases xs) (simp_all add: fst_dedupe_Cons fst_dedupe_Nil)

lemma findAssets_empty:
  assumes "fst (findAssets env as s) = Inr []"
  shows "findAssets env as s =
           (Inr [], s\<lparr>events := events s @ map (\<lambda>a. Info (NoneFoundForOptional (cfg_path a))) as\<rparr>)"
proof (cases "findAll env as [] s")
  case (Pair r s')
  show ?thesis
  proof (cases r)
    case (Inl e)
    with Pair assms show ?thesis by (simp add: findAssets_def)
  next
    case (Inr found)
    with Pair assms have "fst (dedupe env {} found s') = []"
      by (simp add: findAssets_def case_prod_beta)
    then have f: "found = []" by (simp add: dedupe_Nil_iff)
    with Pair Inr have "fst (findAll env as [] s) = Inr []" by simp
    from findAll_empty [OF this] Pair
    have "s' = s\<lparr>events := events s @ map (\<lambda>a. Info (NoneFoundForOptional (cfg_path a))) as\<rparr>"
      by simp
    with Pair Inr f show ?thesis by (simp add: findAssets_def dedupe.simps)
  qed
qed

lemma findAssets_skip_optional:
  assumes "cfg_optional d" "matches env d = []"
  shows "fst (findAssets env (pre @ d # post) s) = fst (findAssets env (pre @ post) s)"
  by (simp add: fst_findAssets [of env _ s s] findAll_skip_optional [OF assms])

subsection \<open>The operations and the event loop\<close>

lemma uploadAsset_task: "fst (uploadAsset desired s) = AwaitReadFile desired"
  by (simp add: uploadAsset_def)

lemma world_uploadAsset: "world (snd (uploadAsset desired s)) = world s"
  by (simp add: uploadAsset_def world_emit)

lemma resume_world:
  assumes "world s = world t"
  shows "fst (resume env rel task s) = fst (resume env rel task t) \<and>
         world (snd (resume env rel task s)) = world (snd (resume env rel task t))"
proof (cases task)
  case (AwaitDelete existing desired)
  obtain r w' where d: "deleteReleaseAsset env (assetId existing) (world t) = (r, w')"
    by (cases "deleteReleaseAsset env (assetId existing) (world t)")
  show ?thesis
    using assms AwaitDelete d
    by (cases r) (simp_all add: updateAsset_afterDelete_def uploadAsset_def world_emit)
next
  case (AwaitReadFile desired)
  show ?thesis
    using assms AwaitReadFile
    by (cases "readFile env (asset_path desired)")
       (simp_all add: uploadAsset_afterReadFile_def Let_def world_emit world_info)
next
  case (AwaitRequest desired req)
  obtain r w' where d: "request env req (world t) = (r, w')"
    by (cases "request env req (world t)")
  show ?thesis
    using assms AwaitRequest d
    by (cases r) (simp_all add: uploadAsset_afterRequest_def Let_def world_info)
next
  case (Settled r)
  with assms show ?thesis by simp
qed

lemma run_world:
  "world s = world t \<Longrightarrow>
   fst (run env rel schedule ts s) = fst (run env rel schedule ts t) \<and>
   world (snd (run env rel schedule ts s)) = world (snd (run env rel schedule ts t))"
proof (induction schedule arbitrary: ts s t)
  case Nil
  then show ?case by simp
next
  case (Cons i schedule)
  show ?case
  proof (cases "i < length ts")
    case False
    then have "run env rel (i # schedule) ts s = run env rel schedule ts s"
      and "run env rel (i # schedule) ts t = run env rel schedule ts t"
      by simp_all
    with Cons.IH [OF Cons.prems, of ts] show ?thesis by (simp only:)
  next
    case True
    obtain t1 s1 where 1: "resume env rel (ts ! i) s = (t1, s1)" by (cases "resume env rel (ts ! i) s")
    obtain t2 s2 where 2: "resume env rel (ts ! i) t = (t2, s2)" by (cases "resume env rel (ts ! i) t")
    from resume_world [OF Cons.prems, of env rel "ts ! i"] 1 2
    have e: "t2 = t1" and w: "world s1 = world s2" by simp_all
    have a: "run env rel (i # schedule) ts s = run env rel schedule (ts[i := t1]) s1"
      using True 1 by simp
    have b: "run env rel (i # schedule) ts t = run env rel schedule (ts[i := t1]) s2"
      using True 2 e by simp
    from Cons.IH [OF w, of "ts[i := t1]"] show ?thesis
      unfolding a b .
  qed
qed


lemma allSettled_nth:
  "allSettled ts = Some rs \<Longrightarrow> i < length ts \<Longrightarrow> ts ! i = Settled (rs ! i)"
proof (induction ts arbitrary: i rs)
  case Nil
  then show ?case by simp
next
  case (Cons t ts)
  then show ?case
    by (cases t; cases i) (auto split: option.splits)
qed

lemma run_settled:
  "allSettled ts = Some rs \<Longrightarrow> run env rel schedule ts s = (ts, s)"
proof (induction schedule)
  case Nil
  show ?case by simp
next
  case (Cons i schedule)
  show ?case
  proof (cases "i < length ts")
    case False
    with Cons show ?thesis by simp
  next
    case True
    from allSettled_nth [OF Cons.prems True] have n: "ts ! i = Settled (rs ! i)" .
    then have "ts[i := Settled (rs ! i)] = ts"
      by (metis list_update_id)
    with True n Cons show ?thesis by simp
  qed
qed

lemma startAll_uploadAsset:
  "startAll uploadAsset xs s =
     (map AwaitReadFile xs, s\<lparr>events := events s @ map (\<lambda>d. Call_readFile (asset_path d)) xs\<rparr>)"
  by (induction xs arbitrary: s) (simp_all add: uploadAsset_def emit_def)

lemma startAll_updateAsset:
  "startAll (\<lambda>(existing, desired). updateAsset existing desired) xs s =
     (map (\<lambda>(existing, desired). AwaitDelete existing desired) xs,
      s\<lparr>events := events s @
          concat (map (\<lambda>(existing, desired).
                    [Info (DeletingExisting (assetName existing) (assetId existing)),
                     Call_deleteReleaseAsset (assetId existing)]) xs)\<rparr>)"
  by (induction xs arbitrary: s)
     (simp_all add: updateAsset_def deleteAsset_def info_def emit_def case_prod_beta)

lemma fst_startAll_uploadAsset: "fst (startAll uploadAsset xs s) = map AwaitReadFile xs"
  by (simp add: startAll_uploadAsset)

lemma world_startAll_uploadAsset: "world (snd (startAll uploadAsset xs s)) = world s"
  by (simp add: startAll_uploadAsset)

lemma fst_startAll_updateAsset:
  "fst (startAll (\<lambda>(existing, desired). updateAsset existing desired) xs s)
     = map (\<lambda>(existing, desired). AwaitDelete existing desired) xs"
  by (simp add: startAll_updateAsset)

lemma world_startAll_updateAsset:
  "world (snd (startAll (\<lambda>(existing, desired). updateAsset existing desired) xs s)) = world s"
  by (simp add: startAll_updateAsset)

lemma fst_modifyBody:
  assumes "world t = world s"
  shows "fst (modifyBody env rel desiredAssets schedule s) =
     (case allSettled (take (length (toUpload (diffAssets (release_assets rel) desiredAssets)))
                         (fst (run env rel schedule (initialTasks rel desiredAssets) t))) of
        None \<Rightarrow> None
      | Some uploadResults \<Rightarrow>
          (case allSettled (drop (length (toUpload (diffAssets (release_assets rel) desiredAssets)))
                              (fst (run env rel schedule (initialTasks rel desiredAssets) t))) of
             None \<Rightarrow> None
           | Some updateResults \<Rightarrow> Some (Inr (aggregate env uploadResults updateResults))))"
proof -
  let ?d = "diffAssets (release_assets rel) desiredAssets"
  let ?s1 = "info (ToUploadToUpdate (length (toUpload ?d)) (length (toUpdate ?d))) s"
  let ?s2 = "snd (startAll uploadAsset (toUpload ?d) ?s1)"
  let ?s3 = "snd (startAll (\<lambda>(existing, desired). updateAsset existing desired) (toUpdate ?d) ?s2)"
  have w: "world ?s3 = world t"
    using assms by (simp only: world_startAll_updateAsset world_startAll_uploadAsset world_info)
  have r: "fst (run env rel schedule (initialTasks rel desiredAssets) ?s3)
         = fst (run env rel schedule (initialTasks rel desiredAssets) t)"
    using run_world [OF w, of env rel schedule "initialTasks rel desiredAssets"] by simp
  have "fst (modifyBody env rel desiredAssets schedule s) =
     (case allSettled (take (length (toUpload ?d))
                         (fst (run env rel schedule (initialTasks rel desiredAssets) ?s3))) of
        None \<Rightarrow> None
      | Some uploadResults \<Rightarrow>
          (case allSettled (drop (length (toUpload ?d))
                              (fst (run env rel schedule (initialTasks rel desiredAssets) ?s3))) of
             None \<Rightarrow> None
           | Some updateResults \<Rightarrow> Some (Inr (aggregate env uploadResults updateResults))))"
    unfolding modifyBody_def Let_def case_prod_beta initialTasks_def
      fst_startAll_uploadAsset fst_startAll_updateAsset length_map
    by (simp split: option.split)
  then show ?thesis unfolding r .
qed

lemma modifyBody_world:
  assumes "world s = world t"
  shows "fst (modifyBody env rel desiredAssets schedule s) = fst (modifyBody env rel desiredAssets schedule t)"
  unfolding fst_modifyBody [OF assms, of env rel desiredAssets schedule]
    fst_modifyBody [OF refl, of env rel desiredAssets schedule s] ..

lemma modifyReleaseAssets_cong:
  assumes "world s = world t"
    and "fst (findAssets env (config_assets c1) s) = fst (findAssets env (config_assets c2) t)"
  shows "fst (modifyReleaseAssets env c1 rel schedule s) = fst (modifyReleaseAssets env c2 rel schedule t)"
proof -
  obtain r1 s1 where 1: "findAssets env (config_assets c1) s = (r1, s1)"
    by (cases "findAssets env (config_assets c1) s")
  obtain r2 s2 where 2: "findAssets env (config_assets c2) t = (r2, s2)"
    by (cases "findAssets env (config_assets c2) t")
  from 1 2 assms(2) have r: "r2 = r1" by simp
  from 1 2 world_findAssets [of env "config_assets c1" s] world_findAssets [of env "config_assets c2" t] assms(1)
  have w: "world s1 = world s2" by simp
  show ?thesis
  proof (cases r1)
    case (Inl e)
    with 1 2 r show ?thesis by (simp add: modifyReleaseAssets_def)
  next
    case (Inr desiredAssets)
    have "world (emit (GroupStart ''Modifying release assets'') s1)
        = world (emit (GroupStart ''Modifying release assets'') s2)"
      using w by (simp add: world_emit)
    from modifyBody_world [OF this, of env rel desiredAssets schedule]
    have "fst (groupAsync ''Modifying release assets'' (modifyBody env rel desiredAssets schedule) s1)
        = fst (groupAsync ''Modifying release assets'' (modifyBody env rel desiredAssets schedule) s2)"
      by (simp add: groupAsync_def case_prod_beta split: option.split)
    with 1 2 r Inr show ?thesis by (simp add: modifyReleaseAssets_def)
  qed
qed

lemma modifyReleaseAssets_mandatory:
  assumes "d \<in> set (config_assets cfg)" "\<not> cfg_optional d" "matches env d = []"
  shows "\<exists>d' \<in> set (config_assets cfg). \<not> cfg_optional d' \<and> matches env d' = [] \<and>
           (\<exists>ps. modifyReleaseAssets env cfg rel schedule s =
                    (Some (Inl (MandatoryArtifactNotFound (cfg_path d'))),
                     s\<lparr>events := events s @ map (\<lambda>p. Info (NoneFoundForOptional p)) ps\<rparr>))"
proof -
  from findAssets_mandatory [OF assms, of s] obtain d' ps where
    d': "d' \<in> set (config_assets cfg)" "\<not> cfg_optional d'" "matches env d' = []"
      "fst (findAssets env (config_assets cfg) s) = Inl (MandatoryArtifactNotFound (cfg_path d'))"
      "snd (findAssets env (config_assets cfg) s) =
                   s\<lparr>events := events s @ map (\<lambda>p. Info (NoneFoundForOptional p)) ps\<rparr>"
    by blast
  from d'(4,5) have "modifyReleaseAssets env cfg rel schedule s =
                    (Some (Inl (MandatoryArtifactNotFound (cfg_path d'))),
                     s\<lparr>events := events s @ map (\<lambda>p. Info (NoneFoundForOptional p)) ps\<rparr>)"
    by (cases "findAssets env (config_assets cfg) s") (simp add: modifyReleaseAssets_def)
  with d'(1,2,3) show ?thesis by blast
qed

lemma run_single_step:
  "run env rel (0 # schedule) [task] s =
     run env rel schedule [fst (resume env rel task s)] (snd (resume env rel task s))"
  by (simp add: case_prod_beta)

lemma matches_optionalSub: "matches demoEnv optionalSub = []"
  by (simp add: matches_def demoEnv_def demoGlob_def optionalSub_def)

lemma matches_mandatorySub: "matches demoEnv mandatorySub = []"
  by (simp add: matches_def demoEnv_def demoGlob_def mandatorySub_def)

lemma matches_mandatoryA: "matches demoEnv mandatoryA = [''dist/a.txt'']"
  by (simp add: matches_def demoEnv_def demoGlob_def mandatoryA_def)

lemma findAssets_optionalSub: "fst (findAssets demoEnv [optionalSub] demoState) = Inr []"
proof -
  have "cfg_optional optionalSub" by (simp add: optionalSub_def)
  then show ?thesis
    by (simp add: findAssets_def findAsset_none matches_optionalSub dedupe.simps)
qed

lemma demo_delete_unknown:
  "deleteReleaseAsset demoEnv (assetId (demoAsset 5 ''old.zip'')) (world demoState)
     = (Inl (CapabilityFailure ''not_found''), world demoState)"
  by (simp add: demoEnv_def demoDelete_def demoAsset_def demoResponse_def normalizeApiAsset_def demoState_def)

lemma demo_delete_known:
  "deleteReleaseAsset demoEnv (assetId (demoAsset 7 ''a.txt'')) (world demoState) = (Inr (), (8, []))"
  by (simp add: demoEnv_def demoDelete_def demoAsset_def demoResponse_def normalizeApiAsset_def demoState_def)

text \<open>
  Claim C3. When a descriptor's pattern matches no file that is not a directory: if the
  descriptor is mandatory, \<^verbatim>\<open>findAsset\<close> throws \<open>MandatoryArtifactNotFound\<close> with its
  pattern, and \<^verbatim>\<open>modifyReleaseAssets\<close> rejects, under every schedule, with that error for
  a mandatory descriptor without a match (the first one of the list), having left the
  remote release as it was and having logged only notes about optional descriptors: no
  capability is called. If the descriptor is optional, \<^verbatim>\<open>findAsset\<close> returns the empty
  list with a note, and the pass returns what it returns without the descriptor.
\<close>

theorem mandatory_or_optional_without_match:
  "(d \<in> set (config_assets cfg) \<and> \<not> cfg_optional d \<and> matches env d = [] \<longrightarrow>
      findAsset env d s = (Inl (MandatoryArtifactNotFound (cfg_path d)), s) \<and>
      (\<exists>d' \<in> set (config_assets cfg). \<not> cfg_optional d' \<and> matches env d' = [] \<and>
         (\<exists>ps. modifyReleaseAssets env cfg rel schedule s =
                  (Some (Inl (MandatoryArtifactNotFound (cfg_path d'))),
                   s\<lparr>events := events s @ map (\<lambda>p. Info (NoneFoundForOptional p)) ps\<rparr>))))
   \<and> (cfg_optional d \<and> matches env d = [] \<longrightarrow>
        findAsset env d s = (Inr [], info (NoneFoundForOptional (cfg_path d)) s) \<and>
        fst (modifyReleaseAssets env (cfg\<lparr>config_assets := pre @ d # post\<rparr>) rel schedule s)
          = fst (modifyReleaseAssets env (cfg\<lparr>config_assets := pre @ post\<rparr>) rel schedule s))"
proof -
  have "fst (modifyReleaseAssets env (cfg\<lparr>config_assets := pre @ d # post\<rparr>) rel schedule s)
          = fst (modifyReleaseAssets env (cfg\<lparr>config_assets := pre @ post\<rparr>) rel schedule s)"
    if "cfg_optional d" "matches env d = []"
    by (rule modifyReleaseAssets_cong) (simp_all add: findAssets_skip_optional [OF that])
  then show ?thesis
    using modifyReleaseAssets_mandatory [of d cfg env rel schedule s]
    by (simp add: findAsset_none)
qed

theorem mandatory_or_optional_without_match_witness:
  "mandatorySub \<in> set (config_assets \<lparr>config_assets = [optionalSub, mandatoryA, mandatorySub]\<rparr>)
   \<and> \<not> cfg_optional mandatorySub \<and> matches demoEnv mandatorySub = []
   \<and> findAsset demoEnv mandatorySub demoState = (Inl (MandatoryArtifactNotFound ''dist/s*''), demoState)
   \<and> modifyReleaseAssets demoEnv \<lparr>config_assets = [optionalSub, mandatoryA, mandatorySub]\<rparr> demoRelease [0, 1] demoState
       = (Some (Inl (MandatoryArtifactNotFound ''dist/s*'')),
          demoState\<lparr>events := [Info (NoneFoundForOptional ''dist/s*'')]\<rparr>)
   \<and> cfg_optional optionalSub \<and> matches demoEnv optionalSub = []
   \<and> findAsset demoEnv optionalSub demoState = (Inr [], info (NoneFoundForOptional ''dist/s*'') demoState)
   \<and> fst (modifyReleaseAssets demoEnv \<lparr>config_assets = [mandatoryA] @ optionalSub # [mandatoryB]\<rparr> demoRelease [0, 1, 2, 0, 1, 2, 2] demoState)
       = fst (modifyReleaseAssets demoEnv \<lparr>config_assets = [mandatoryA] @ [mandatoryB]\<rparr> demoRelease [0, 1, 2, 0, 1, 2, 2] demoState)"
proof -
  let ?cfg = "\<lparr>config_assets = [optionalSub, mandatoryA, mandatorySub]\<rparr>"
  have o: "cfg_optional optionalSub" "\<not> cfg_optional mandatorySub" "\<not> cfg_optional mandatoryA"
    and p: "cfg_path optionalSub = ''dist/s*''" "cfg_path mandatorySub = ''dist/s*''"
    by (simp_all add: optionalSub_def mandatorySub_def mandatoryA_def)
  have m: "mandatorySub \<in> set (config_assets ?cfg) \<and> \<not> cfg_optional mandatorySub \<and> matches demoEnv mandatorySub = []"
    by (simp add: o matches_mandatorySub)
  have run: "modifyReleaseAssets demoEnv ?cfg demoRelease [0, 1] demoState
       = (Some (Inl (MandatoryArtifactNotFound ''dist/s*'')),
          demoState\<lparr>events := [Info (NoneFoundForOptional ''dist/s*'')]\<rparr>)"
    by (simp add: modifyReleaseAssets_def findAssets_def findAsset_none findAsset_single
        matches_optionalSub matches_mandatorySub matches_mandatoryA o p info_def emit_def demoState_def)
  from mandatory_or_optional_without_match [of mandatorySub ?cfg demoEnv demoState demoRelease "[0, 1]"] m
  have 1: "findAsset demoEnv mandatorySub demoState = (Inl (MandatoryArtifactNotFound ''dist/s*''), demoState)"
    by (simp add: p)
  from mandatory_or_optional_without_match [of optionalSub "\<lparr>config_assets = []\<rparr>" demoEnv demoState demoRelease
      "[0, 1, 2, 0, 1, 2, 2]" "[mandatoryA]" "[mandatoryB]"]
  have 2: "findAsset demoEnv optionalSub demoState = (Inr [], info (NoneFoundForOptional ''dist/s*'') demoState)
   \<and> fst (modifyReleaseAssets demoEnv \<lparr>config_assets = [mandatoryA] @ optionalSub # [mandatoryB]\<rparr> demoRelease [0, 1, 2, 0, 1, 2, 2] demoState)
       = fst (modifyReleaseAssets demoEnv \<lparr>config_assets = [mandatoryA] @ [mandatoryB]\<rparr> demoRelease [0, 1, 2, 0, 1, 2, 2] demoState)"
    by (simp add: o p matches_optionalSub)
  show ?thesis using m run 1 2 o matches_optionalSub by simp
qed

text \<open>
  Claim C4. \<^verbatim>\<open>updateAsset\<close> first logs and calls the delete capability with the identifier
  of the existing asset, and awaits it. When the delete is rejected the operation is
  rejected with the same error and stays so: nothing is read or uploaded. When the delete
  succeeds the operation goes on as \<^verbatim>\<open>uploadAsset\<close> of the desired asset, started in
  the state the delete left.
\<close>

theorem updateAsset_delete_then_upload:
  "updateAsset existing desired s =
     (AwaitDelete existing desired,
      s\<lparr>events := events s @ [Info (DeletingExisting (assetName existing) (assetId existing)),
                               Call_deleteReleaseAsset (assetId existing)]\<rparr>)
   \<and> (deleteReleaseAsset env (assetId existing) (world s') = (Inl e, w') \<longrightarrow>
        resume env rel (AwaitDelete existing desired) s' = (Settled (Rejected e), s'\<lparr>world := w'\<rparr>) \<and>
        run env rel (0 # schedule) [AwaitDelete existing desired] s'
          = ([Settled (Rejected e)], s'\<lparr>world := w'\<rparr>))
   \<and> (deleteReleaseAsset env (assetId existing) (world s') = (Inr u, w') \<longrightarrow>
        resume env rel (AwaitDelete existing desired) s' = uploadAsset desired (s'\<lparr>world := w'\<rparr>) \<and>
        run env rel (0 # schedule) [AwaitDelete existing desired] s'
          = run env rel schedule [fst (uploadAsset desired (s'\<lparr>world := w'\<rparr>))]
              (snd (uploadAsset desired (s'\<lparr>world := w'\<rparr>))))"
proof -
  have 1: "updateAsset existing desired s =
     (AwaitDelete existing desired,
      s\<lparr>events := events s @ [Info (DeletingExisting (assetName existing) (assetId existing)),
                               Call_deleteReleaseAsset (assetId existing)]\<rparr>)"
    by (simp add: updateAsset_def deleteAsset_def info_def emit_def)
  have 2: "resume env rel (AwaitDelete existing desired) s' = (Settled (Rejected e), s'\<lparr>world := w'\<rparr>)"
    if "deleteReleaseAsset env (assetId existing) (world s') = (Inl e, w')"
    using that by (simp add: updateAsset_afterDelete_def)
  have 3: "run env rel (0 # schedule) [AwaitDelete existing desired] s'
          = ([Settled (Rejected e)], s'\<lparr>world := w'\<rparr>)"
    if "deleteReleaseAsset env (assetId existing) (world s') = (Inl e, w')"
    unfolding run_single_step 2 [OF that]
    by (simp add: run_settled [of "[Settled (Rejected e)]" "[Rejected e]"])
  have 4: "resume env rel (AwaitDelete existing desired) s' = uploadAsset desired (s'\<lparr>world := w'\<rparr>)"
    if "deleteReleaseAsset env (assetId existing) (world s') = (Inr u, w')"
    using that by (simp add: updateAsset_afterDelete_def)
  have 5: "run env rel (0 # schedule) [AwaitDelete existing desired] s'
          = run env rel schedule [fst (uploadAsset desired (s'\<lparr>world := w'\<rparr>))]
              (snd (uploadAsset desired (s'\<lparr>world := w'\<rparr>)))"
    if "deleteReleaseAsset env (assetId existing) (world s') = (Inr u, w')"
    unfolding run_single_step 4 [OF that] ..
  show ?thesis using 1 2 3 4 5 by blast
qed

theorem updateAsset_delete_then_upload_witness:
  "deleteReleaseAsset demoEnv (assetId (demoAsset 5 ''old.zip'')) (world demoState)
     = (Inl (CapabilityFailure ''not_found''), world demoState)
   \<and> run demoEnv demoRelease [0, 0, 0] [AwaitDelete (demoAsset 5 ''old.zip'') desiredA] demoState
     = ([Settled (Rejected (CapabilityFailure ''not_found''))], demoState)
   \<and> deleteReleaseAsset demoEnv (assetId (demoAsset 7 ''a.txt'')) (world demoState) = (Inr (), (8, []))
   \<and> resume demoEnv demoRelease (AwaitDelete (demoAsset 7 ''a.txt'') desiredA) demoState
     = uploadAsset desiredA (demoState\<lparr>world := (8, [])\<rparr>)
   \<and> snd (updateAsset (demoAsset 7 ''a.txt'') desiredA demoState)
     = demoState\<lparr>events := [Info (DeletingExisting ''a.txt'' 7), Call_deleteReleaseAsset 7]\<rparr>"
proof -
  have a: "assetId (demoAsset 7 ''a.txt'') = 7" "assetName (demoAsset 7 ''a.txt'') = ''a.txt''"
    by (simp_all add: demoAsset_def demoResponse_def normalizeApiAsset_def)
  have e: "events demoState = []" by (simp add: demoState_def)
  from updateAsset_delete_then_upload [of "demoAsset 5 ''old.zip''" desiredA demoState demoEnv demoState
      "CapabilityFailure ''not_found''" "world demoState" demoRelease "[0, 0]"] demo_delete_unknown
  have 1: "run demoEnv demoRelease [0, 0, 0] [AwaitDelete (demoAsset 5 ''old.zip'') desiredA] demoState
     = ([Settled (Rejected (CapabilityFailure ''not_found''))], demoState)"
    by simp
  from updateAsset_delete_then_upload [of "demoAsset 7 ''a.txt''" desiredA demoState demoEnv demoState
      _ "(8, [])" demoRelease "[]" "()"] demo_delete_known
  have 2: "resume demoEnv demoRelease (AwaitDelete (demoAsset 7 ''a.txt'') desiredA) demoState
     = uploadAsset desiredA (demoState\<lparr>world := (8, [])\<rparr>)"
    and 3: "snd (updateAsset (demoAsset 7 ''a.txt'') desiredA demoState)
     = demoState\<lparr>events := [Info (DeletingExisting ''a.txt'' 7), Call_deleteReleaseAsset 7]\<rparr>"
    by (simp_all add: a e)
  show ?thesis using demo_delete_unknown demo_delete_known 1 2 3 by simp
qed

text \<open>
  Claim C9. When the release has no asset and the discovery returns the empty list,
  \<^verbatim>\<open>modifyReleaseAssets\<close> resolves to \<^verbatim>\<open>[true, []]\<close> under every schedule; apart from the
  notes of the discovery it logs one message, so no log group is opened, no count of a diff
  is logged and no capability is called, and the remote release is as it was.
\<close>

theorem modifyReleaseAssets_nothing_to_do:
  assumes "release_assets rel = []" and "fst (findAssets env (config_assets cfg) s) = Inr []"
  shows "modifyReleaseAssets env cfg rel schedule s =
           (Some (Inr (True, [])),
            s\<lparr>events := events s
                 @ map (\<lambda>a. Info (NoneFoundForOptional (cfg_path a))) (config_assets cfg)
                 @ [Info NoReleaseAssetsToModify]\<rparr>)"
  using assms(1) findAssets_empty [OF assms(2)]
  by (simp add: modifyReleaseAssets_def info_def emit_def)

theorem modifyReleaseAssets_nothing_to_do_witness:
  "release_assets emptyRelease = []
   \<and> fst (findAssets demoEnv (config_assets \<lparr>config_assets = [optionalSub]\<rparr>) demoState) = Inr []
   \<and> modifyReleaseAssets demoEnv \<lparr>config_assets = [optionalSub]\<rparr> emptyRelease [0, 1] demoState =
       (Some (Inr (True, [])),
        demoState\<lparr>events := [Info (NoneFoundForOptional ''dist/s*''), Info NoReleaseAssetsToModify]\<rparr>)"
proof -
  have r: "release_assets emptyRelease = []" by (simp add: emptyRelease_def)
  have f: "fst (findAssets demoEnv (config_assets \<lparr>config_assets = [optionalSub]\<rparr>) demoState) = Inr []"
    by (simp add: findAssets_optionalSub)
  have e: "events demoState = []" by (simp add: demoState_def)
  have p: "cfg_path optionalSub = ''dist/s*''" by (simp add: optionalSub_def)
  show ?thesis
    using modifyReleaseAssets_nothing_to_do [OF r f, of "[0, 1]"] r f by (simp add: e p)
qed

subsection \<open>The order of the report\<close>

















lemma fst_groupAsync: "fst (groupAsync title fn s) = fst (fn (emit (GroupStart title) s))"
  by (simp add: groupAsync_def case_prod_beta split: option.split)











lemma modifyReleaseAssets_aggregate:
  assumes "fst (modifyReleaseAssets env cfg rel schedule s) = Some (Inr res)"
  shows "\<exists>uploadResults updateResults. res = aggregate env uploadResults updateResults"
proof (cases "findAssets env (config_assets cfg) s")
  case (Pair r s1)
  show ?thesis
  proof (cases r)
    case (Inl e)
    with Pair assms show ?thesis by (simp add: modifyReleaseAssets_def)
  next
    case (Inr desiredAssets)
    show ?thesis
    proof (cases "release_assets rel = [] \<and> desiredAssets = []")
      case True
      with Pair Inr assms have "res = (True, [])" by (auto simp add: modifyReleaseAssets_def)
      also have "(True, []) = aggregate env [] []"
        by (simp add: aggregate_def analyzeResults_def arraySort_def)
      finally show ?thesis by blast
    next
      case False
      let ?s = "emit (GroupStart ''Modifying release assets'') s1"
      from False Pair Inr assms
      have "fst (modifyBody env rel desiredAssets schedule ?s) = Some (Inr res)"
        by (auto simp add: modifyReleaseAssets_def fst_groupAsync)
      then show ?thesis
        unfolding fst_modifyBody [OF refl, of env rel desiredAssets schedule ?s]
        by (auto split: option.splits)
    qed
  qed
qed



lemma fixed_run:
  "fst (modifyReleaseAssets fixedEnv \<lparr>config_assets = [mandatoryA, mandatoryB]\<rparr> demoRelease [0, 1, 2, 0, 1, 2, 2] fixedState)
    = Some (Inr (False, [demoAsset 5 ''a.txt'', demoAsset 8 ''b.1.json'']))"
  by (simp add: modifyReleaseAssets_def findAssets_def findAsset_def normalizeAsset_def
      mandatoryA_def mandatoryB_def fixedEnv_def fixedState_def demoGlob_def posixBasename_def
      asciiLower_def dedupe.simps Let_def info_def emit_def warning_def
      groupAsync_def modifyBody_def diffAssets_def demoRelease_def demoAsset_def demoResponse_def
      normalizeApiAsset_def uploadAsset_def updateAsset_def deleteAsset_def
      updateAsset_afterDelete_def uploadAsset_afterReadFile_def uploadAsset_afterRequest_def
      demoReadFile_def demoLookup_def fixedRequest_def fixedDelete_def
      aggregate_def analyzeResults_def arraySort_def compareApiAsset_def codeUnitCompare_def
      logResults_def error_def)



















subsection \<open>The report of modifyReleaseAssets\<close>

lemma fromUpload_resume: "fromUpload env task \<Longrightarrow> fromUpload env (fst (resume env rel task s))"
proof (cases task)
  case (AwaitDelete existing desired)
  obtain r w' where d: "deleteReleaseAsset env (assetId existing) (world s) = (r, w')"
    by (cases "deleteReleaseAsset env (assetId existing) (world s)")
  show ?thesis
    using AwaitDelete d
    by (cases r) (simp_all add: updateAsset_afterDelete_def uploadAsset_def)
next
  case (AwaitReadFile desired)
  show ?thesis
    using AwaitReadFile
    by (cases "readFile env (asset_path desired)")
       (simp_all add: uploadAsset_afterReadFile_def Let_def)
next
  case (AwaitRequest desired req)
  obtain r w' where d: "request env req (world s) = (r, w')"
    by (cases "request env req (world s)")
  show ?thesis
  proof (cases r)
    case (Inl e)
    with AwaitRequest d show ?thesis by (simp add: uploadAsset_afterRequest_def)
  next
    case (Inr apiAsset)
    with d have "uploadedBy env (normalizeApiAsset apiAsset)"
      unfolding uploadedBy_def by blast
    with AwaitRequest d Inr show ?thesis by (simp add: uploadAsset_afterRequest_def Let_def)
  qed
next
  case (Settled r)
  assume "fromUpload env task"
  with Settled show ?thesis by simp
qed

lemma fromUpload_run:
  "list_all (fromUpload env) ts \<Longrightarrow> list_all (fromUpload env) (fst (run env rel schedule ts s))"
proof (induction schedule arbitrary: ts s)
  case Nil
  then show ?case by simp
next
  case (Cons i schedule)
  show ?case
  proof (cases "i < length ts")
    case False
    with Cons.IH [OF Cons.prems, of s] show ?thesis by simp
  next
    case True
    obtain t1 s1 where 1: "resume env rel (ts ! i) s = (t1, s1)" by (cases "resume env rel (ts ! i) s")
    have a: "run env rel (i # schedule) ts s = run env rel schedule (ts[i := t1]) s1"
      using True 1 by simp
    from Cons.prems True have "fromUpload env (ts ! i)" by (simp add: list_all_length)
    from fromUpload_resume [OF this, of rel s] 1 have "fromUpload env t1" by simp
    with Cons.prems have "list_all (fromUpload env) (ts[i := t1])"
      by (auto simp add: list_all_iff dest: set_update_subset_insert [THEN subsetD])
    from Cons.IH [OF this, of s1] show ?thesis unfolding a .
  qed
qed

lemma fromUpload_initialTasks: "list_all (fromUpload env) (initialTasks rel desiredAssets)"
  by (auto simp add: initialTasks_def list_all_iff)

lemma fromUpload_allSettled:
  "allSettled ts = Some rs \<Longrightarrow> list_all (fromUpload env) ts \<Longrightarrow> Fulfilled v \<in> set rs \<Longrightarrow>
   uploadedBy env v"
proof (induction ts arbitrary: rs)
  case Nil
  then show ?case by simp
next
  case (Cons t ts)
  then show ?case
    by (cases t) (auto split: option.splits)
qed

lemma allSettled_append:
  "allSettled (xs @ ys) =
     (case allSettled xs of
        None \<Rightarrow> None
      | Some a \<Rightarrow> (case allSettled ys of None \<Rightarrow> None | Some b \<Rightarrow> Some (a @ b)))"
proof (induction xs)
  case Nil
  show ?case by (simp split: option.split)
next
  case (Cons t xs)
  then show ?case
    by (cases t) (simp_all split: option.split)
qed

lemma modifyBody_results:
  assumes "fst (modifyBody env rel desiredAssets schedule s) = Some r"
  shows "\<exists>upl upd. allSettled (fst (run env rel schedule (initialTasks rel desiredAssets) s)) = Some (upl @ upd)
           \<and> r = Inr (aggregate env upl upd)"
proof -
  let ?n = "length (toUpload (diffAssets (release_assets rel) desiredAssets))"
  let ?ts = "fst (run env rel schedule (initialTasks rel desiredAssets) s)"
  from assms obtain upl upd where
    u: "allSettled (take ?n ?ts) = Some upl" "allSettled (drop ?n ?ts) = Some upd"
      "r = Inr (aggregate env upl upd)"
    unfolding fst_modifyBody [OF refl, of env rel desiredAssets schedule s]
    by (auto split: option.splits)
  have "allSettled (take ?n ?ts @ drop ?n ?ts) = Some (upl @ upd)"
    unfolding allSettled_append using u(1,2) by simp
  with u(3) show ?thesis by auto
qed

lemma set_aggregate:
  "set (snd (aggregate env upl upd)) = {v. Fulfilled v \<in> set (upl @ upd)}"
proof -
  have "Fulfilled ` set (snd (aggregate env upl upd)) = {r \<in> set (upl @ upd). isFulfilled r}"
    using arg_cong [OF mset_aggregate [of env upl upd], of set_mset] by auto
  moreover have "isFulfilled r = (\<exists>v. r = Fulfilled v)" for r
    by (cases r) (simp_all add: isFulfilled_def)
  ultimately show ?thesis
    by (auto simp add: image_iff set_eq_iff)
qed

lemma modifyReleaseAssets_uploaded:
  assumes "fst (modifyReleaseAssets env cfg rel schedule s) = Some (Inr (ok, sortedAssets))"
    and "v \<in> set sortedAssets"
  shows "uploadedBy env v"
proof (cases "findAssets env (config_assets cfg) s")
  case (Pair r s1)
  show ?thesis
  proof (cases r)
    case (Inl e)
    with Pair assms show ?thesis by (simp add: modifyReleaseAssets_def)
  next
    case (Inr desiredAssets)
    show ?thesis
    proof (cases "release_assets rel = [] \<and> desiredAssets = []")
      case True
      with Pair Inr assms show ?thesis by (auto simp add: modifyReleaseAssets_def)
    next
      case False
      let ?s = "emit (GroupStart ''Modifying release assets'') s1"
      from False Pair Inr assms(1)
      have "fst (modifyBody env rel desiredAssets schedule ?s) = Some (Inr (ok, sortedAssets))"
        by (auto simp add: modifyReleaseAssets_def fst_groupAsync)
      from modifyBody_results [OF this] obtain upl upd where
        u: "allSettled (fst (run env rel schedule (initialTasks rel desiredAssets) ?s)) = Some (upl @ upd)"
          "(ok, sortedAssets) = aggregate env upl upd"
        by auto
      from u(2) have "sortedAssets = snd (aggregate env upl upd)" by (metis snd_conv)
      with assms(2) have "Fulfilled v \<in> set (upl @ upd)" by (simp add: set_aggregate)
      from fromUpload_allSettled [OF u(1) fromUpload_run [OF fromUpload_initialTasks] this]
      show ?thesis .
    qed
  qed
qed

text \<open>
  Claim C1. For every pair of batches of settled results, the report's success flag is
  true exactly when every result of both batches is fulfilled, and the report's assets
  are exactly the values of the fulfilled results, each as often as it was fulfilled:
  nothing of a rejected operation is in the list. When \<^verbatim>\<open>modifyReleaseAssets\<close> returns a
  report, it is the report of two such batches, and every asset in it is the normalised
  answer of an upload request: an existing asset that no operation uploaded again is
  not in the list.
\<close>

theorem aggregate_success_and_artifacts:
  "fst (aggregate env uploadResults updateResults)
     = (\<forall>r \<in> set (uploadResults @ updateResults). \<exists>v. r = Fulfilled v)
   \<and> mset (map Fulfilled (snd (aggregate env uploadResults updateResults)))
     = {#r \<in># mset (uploadResults @ updateResults). \<exists>v. r = Fulfilled v#}
   \<and> set (snd (aggregate env uploadResults updateResults))
     = {v. Fulfilled v \<in> set (uploadResults @ updateResults)}
   \<and> (fst (modifyReleaseAssets env cfg rel schedule s) = Some (Inr (ok, sortedAssets)) \<longrightarrow>
        (\<exists>upl upd. (ok, sortedAssets) = aggregate env upl upd) \<and>
        (\<forall>v \<in> set sortedAssets. uploadedBy env v))"
proof -
  have iff: "isFulfilled r = (\<exists>v. r = Fulfilled v)" for r
    by (cases r) (simp_all add: isFulfilled_def)
  have 1: "fst (aggregate env uploadResults updateResults)
     = (\<forall>r \<in> set (uploadResults @ updateResults). \<exists>v. r = Fulfilled v)"
    by (auto simp add: fst_aggregate analyzeResults_isSuccess list_all_iff iff)
  have 2: "mset (map Fulfilled (snd (aggregate env uploadResults updateResults)))
     = {#r \<in># mset (uploadResults @ updateResults). \<exists>v. r = Fulfilled v#}"
  proof -
    have "isFulfilled = (\<lambda>r. \<exists>v. r = Fulfilled v)"
      by (rule ext) (rule iff)
    then show ?thesis
      using mset_aggregate [of env uploadResults updateResults] by simp
  qed
  have 3: "set (snd (aggregate env uploadResults updateResults))
     = {v. Fulfilled v \<in> set (uploadResults @ updateResults)}"
    by (rule set_aggregate)
  have 4: "\<exists>upl upd. (ok, sortedAssets) = aggregate env upl upd"
    if "fst (modifyReleaseAssets env cfg rel schedule s) = Some (Inr (ok, sortedAssets))"
    using that by (rule modifyReleaseAssets_aggregate)
  have 5: "\<forall>v \<in> set sortedAssets. uploadedBy env v"
    if "fst (modifyReleaseAssets env cfg rel schedule s) = Some (Inr (ok, sortedAssets))"
    using modifyReleaseAssets_uploaded [OF that] by blast
  show ?thesis using 1 2 3 4 5 by blast
qed

theorem aggregate_success_and_artifacts_witness:
  "fst (aggregate demoEnv
          [Fulfilled (demoAsset 8 ''b.1.json''), Rejected (CapabilityFailure ''EACCES'')]
          [Fulfilled (demoAsset 9 ''a.txt'')]) = False
   \<and> fst (aggregate demoEnv [Fulfilled (demoAsset 8 ''b.1.json'')] [Fulfilled (demoAsset 9 ''a.txt'')]) = True
   \<and> set (snd (aggregate demoEnv
          [Fulfilled (demoAsset 8 ''b.1.json''), Rejected (CapabilityFailure ''EACCES'')]
          [Fulfilled (demoAsset 9 ''a.txt'')])) = {demoAsset 8 ''b.1.json'', demoAsset 9 ''a.txt''}
   \<and> fst (modifyReleaseAssets fixedEnv \<lparr>config_assets = [mandatoryA, mandatoryB]\<rparr> demoRelease
           [0, 1, 2, 0, 1, 2, 2] fixedState)
       = Some (Inr (False, [demoAsset 5 ''a.txt'', demoAsset 8 ''b.1.json'']))
   \<and> uploadedBy fixedEnv (demoAsset 5 ''a.txt'') \<and> uploadedBy fixedEnv (demoAsset 8 ''b.1.json'')"
proof -
  from aggregate_success_and_artifacts [of demoEnv
          "[Fulfilled (demoAsset 8 ''b.1.json''), Rejected (CapabilityFailure ''EACCES'')]"
          "[Fulfilled (demoAsset 9 ''a.txt'')]"]
  have 1: "fst (aggregate demoEnv
          [Fulfilled (demoAsset 8 ''b.1.json''), Rejected (CapabilityFailure ''EACCES'')]
          [Fulfilled (demoAsset 9 ''a.txt'')]) = False"
    and 2: "set (snd (aggregate demoEnv
          [Fulfilled (demoAsset 8 ''b.1.json''), Rejected (CapabilityFailure ''EACCES'')]
          [Fulfilled (demoAsset 9 ''a.txt'')])) = {demoAsset 8 ''b.1.json'', demoAsset 9 ''a.txt''}"
    by auto
  from aggregate_success_and_artifacts [of demoEnv
          "[Fulfilled (demoAsset 8 ''b.1.json'')]" "[Fulfilled (demoAsset 9 ''a.txt'')]"]
  have 3: "fst (aggregate demoEnv [Fulfilled (demoAsset 8 ''b.1.json'')] [Fulfilled (demoAsset 9 ''a.txt'')]) = True"
    by auto
  from aggregate_success_and_artifacts [of fixedEnv _ _ "\<lparr>config_assets = [mandatoryA, mandatoryB]\<rparr>"
      demoRelease "[0, 1, 2, 0, 1, 2, 2]" fixedState False "[demoAsset 5 ''a.txt'', demoAsset 8 ''b.1.json'']"]
    fixed_run
  have 4: "uploadedBy fixedEnv (demoAsset 5 ''a.txt'') \<and> uploadedBy fixedEnv (demoAsset 8 ''b.1.json'')"
    by simp
  show ?thesis using 1 2 3 4 fixed_run by simp
qed

end
